theory Spec2Isabelle
  imports Complex_Main "HOL-Library.Word"
begin

unbundle bit_operations_syntax

section \<open>Numbers, errors and the matrix type\<close>

text \<open>
  JavaScript numbers are IEEE doubles. The embedding idealises them: a finite number is a
  \<^typ>\<open>real\<close>, a complex entry (two adjacent slots of the interleaved \<open>Float64Array\<close>) is a
  \<^typ>\<open>complex\<close>, and rounding is ignored. The one place where the program's arithmetic
  leaves the finite numbers, a division by zero (\<open>1 / 0\<close> is \<open>Infinity\<close>, and
  \<open>0 * Infinity\<close> is \<open>NaN\<close>), is an explicit branch: the value \<open>NonFinite\<close>. It is not a
  thrown exception; it marks a result that JavaScript returns normally with \<open>Infinity\<close> or
  \<open>NaN\<close> entries. Operands of \<open>&\<close>, \<open>|\<close> and \<open><<\<close> are 32-bit integers (\<open>ToInt32\<close>), the
  shift count is taken modulo 32.
\<close>

datatype error =
    ValidationError   \<comment> \<open>thrown by the constructor\<close>
  | OperationError    \<comment> \<open>thrown by \<open>applyOperation\<close>\<close>
  | MatrixError       \<comment> \<open>a matrix operation applied to incompatible dimensions\<close>
  | NonFinite         \<comment> \<open>not a throw: the result holds \<open>Infinity\<close> or \<open>NaN\<close>\<close>

definition bindE :: "error + 'a \<Rightarrow> ('a \<Rightarrow> error + 'b) \<Rightarrow> error + 'b" where
  "bindE x f = (case x of Inl e \<Rightarrow> Inl e | Inr v \<Rightarrow> f v)"

text \<open>
  \<open>new Matrix(width, height, buffer)\<close>: the buffer is row-major; entry \<open>(r, c)\<close> occupies the
  slots \<open>(r*w + c)*2\<close> and \<open>(r*w + c)*2 + 1\<close> of the source's array, hence position
  \<open>r*w + c\<close> of the list of complex entries.
\<close>

record Matrix =
  width :: nat
  height :: nat
  rawBuffer :: "complex list"

definition wellFormed :: "Matrix \<Rightarrow> bool" where
  "wellFormed m = (length (rawBuffer m) = width m * height m)"

definition cell :: "Matrix \<Rightarrow> nat \<Rightarrow> nat \<Rightarrow> complex" where
  "cell m r c = rawBuffer m ! (r * width m + c)"

definition generate :: "nat \<Rightarrow> nat \<Rightarrow> (nat \<Rightarrow> nat \<Rightarrow> complex) \<Rightarrow> Matrix" where
  "generate w h f =
     \<lparr>width = w, height = h, rawBuffer = map (\<lambda>k. f (k div w) (k mod w)) [0..<w * h]\<rparr>"

subsection \<open>Matrix operations that the simulator calls\<close>

text \<open>
  Modelled from the spec: \<open>src/math/Matrix.js\<close> is imported by the simulator but is not
  among the source files. The operations below follow section 4.1 of the specification:
  \<open>times\<close> (matrix form) requires \<open>A.width = B.height\<close> and is the standard product,
  \<open>times\<close> (scalar form) scales every entry, \<open>adjoint\<close> is the conjugate transpose,
  \<open>trace\<close> requires a square matrix and sums the diagonal, \<open>tensorProduct\<close> is the
  Kronecker product of dimensions \<open>(A.h*B.h) x (A.w*B.w)\<close> (the receiver supplies the more
  significant index), and \<open>isUnitary\<close> holds iff \<open>A * adjoint A\<close> is within the tolerance
  of the identity, here in the norm-based reading (square root of the sum of squared
  magnitudes of the difference). An operation whose dimension requirement is violated
  fails with \<open>MatrixError\<close>.
\<close>

definition identity :: "nat \<Rightarrow> Matrix" where
  "identity n = generate n n (\<lambda>r c. if r = c then 1 else 0)"

definition timesMatrix :: "Matrix \<Rightarrow> Matrix \<Rightarrow> error + Matrix" where
  "timesMatrix a b =
     (if width a \<noteq> height b then Inl MatrixError
      else Inr (generate (width b) (height a) (\<lambda>r c. \<Sum>k<width a. cell a r k * cell b k c)))"

definition timesScalar :: "Matrix \<Rightarrow> real \<Rightarrow> Matrix" where
  "timesScalar m s = m\<lparr>rawBuffer := map (\<lambda>z. z * complex_of_real s) (rawBuffer m)\<rparr>"

definition adjoint :: "Matrix \<Rightarrow> Matrix" where
  "adjoint m = generate (height m) (width m) (\<lambda>r c. cnj (cell m c r))"

definition trace :: "Matrix \<Rightarrow> error + complex" where
  "trace m = (if width m \<noteq> height m then Inl MatrixError
              else Inr (\<Sum>i<height m. cell m i i))"

definition tensorProduct :: "Matrix \<Rightarrow> Matrix \<Rightarrow> Matrix" where
  "tensorProduct a b =
     generate (width a * width b) (height a * height b)
       (\<lambda>r c. cell a (r div height b) (c div width b) * cell b (r mod height b) (c mod width b))"

definition distanceTo :: "Matrix \<Rightarrow> Matrix \<Rightarrow> real" where
  "distanceTo a b =
     sqrt (\<Sum>r<height a. \<Sum>c<width a. (cmod (cell a r c - cell b r c))\<^sup>2)"

definition isApproximatelyEqualTo :: "Matrix \<Rightarrow> Matrix \<Rightarrow> real \<Rightarrow> bool" where
  "isApproximatelyEqualTo a b epsilon =
     (width a = width b \<and> height a = height b \<and> distanceTo a b \<le> epsilon)"

definition isUnitary :: "Matrix \<Rightarrow> real \<Rightarrow> bool" where
  "isUnitary m epsilon =
     (if height m \<noteq> width m then False
      else case timesMatrix m (adjoint m) of
             Inl e \<Rightarrow> False
           | Inr p \<Rightarrow> isApproximatelyEqualTo p (identity (width m)) epsilon)"

text \<open>
  Modelled from the spec: \<open>Matrix.qubitDensityMatrixToBlochVector\<close> is not among the source
  files. Section 4.4: the Bloch coordinates of a 2x2 density matrix by the standard
  Pauli-expectation decomposition, \<open>x = tr(\<rho> X)\<close>, \<open>y = tr(\<rho> Y)\<close>, \<open>z = tr(\<rho> Z)\<close>.
\<close>

definition qubitDensityMatrixToBlochVector :: "Matrix \<Rightarrow> real \<times> real \<times> real" where
  "qubitDensityMatrixToBlochVector d =
     (Re (cell d 0 1 + cell d 1 0),
      Re (\<i> * (cell d 0 1 - cell d 1 0)),
      Re (cell d 0 0 - cell d 1 1))"

text \<open>
  Modelled from the spec: \<open>Util.isPowerOf2\<close> (\<open>src/base/Util.js\<close>) is not among the source
  files. Section 4.3: the height is a power of two.
\<close>

definition isPowerOf2 :: "nat \<Rightarrow> bool" where
  "isPowerOf2 h = (h \<in> set (map (\<lambda>n. 2 ^ n) [0..<Suc h]))"

subsection \<open>Language primitives\<close>

text \<open>\<open>1 << k\<close> on 32-bit integers: the shift count is \<open>k mod 32\<close>.\<close>

definition shiftLeftOne :: "nat \<Rightarrow> 32 word" where
  "shiftLeftOne k = push_bit (k mod 32) 1"

text \<open>\<open>1 / x\<close>: \<open>Infinity\<close> at zero.\<close>

definition reciprocal :: "real \<Rightarrow> error + real" where
  "reciprocal x = (if x = 0 then Inl NonFinite else Inr (1 / x))"

text \<open>
  \<open>Number.prototype.toFixed(f)\<close> for a finite \<open>x\<close>: the integer \<open>n\<close> with \<open>n / 10^f\<close> nearest to
  \<open>\<bar>x\<bar>\<close> (the larger one of two), written in decimal with exactly \<open>f\<close> digits after the
  point and a sign for negative \<open>x\<close>. From \<open>10^21\<close> on the result is in exponent notation,
  which is not modelled: \<open>None\<close>.
\<close>

fun decimalDigits :: "nat \<Rightarrow> string" where
  "decimalDigits n =
     (if n < 10 then [''0123456789'' ! n]
      else decimalDigits (n div 10) @ [''0123456789'' ! (n mod 10)])"

declare decimalDigits.simps [simp del]

definition fixedDigits :: "nat \<Rightarrow> nat \<Rightarrow> string" where
  "fixedDigits f n =
     (let m = decimalDigits n;
          m = (if length m \<le> f then replicate (f + 1 - length m) (CHR ''0'') @ m else m)
      in if f = 0 then m
         else take (length m - f) m @ ''.'' @ drop (length m - f) m)"

definition nearestScaled :: "nat \<Rightarrow> real \<Rightarrow> nat" where
  "nearestScaled f x = nat \<lfloor>x * 10 ^ f + 1 / 2\<rfloor>"

definition toFixed :: "nat \<Rightarrow> real \<Rightarrow> string option" where
  "toFixed f x =
     (if 10 ^ 21 \<le> \<bar>x\<bar> then None
      else if x < 0 then Some (''-'' @ fixedDigits f (nearestScaled f (- x)))
      else Some (fixedDigits f (nearestScaled f x)))"

section \<open>The simulator (src/EveQuantumComputer.js)\<close>

definition absCol :: "Matrix \<Rightarrow> error + real" where
  "absCol m =
     bindE (timesMatrix (adjoint m) m) (\<lambda>p.
     bindE (trace p) (\<lambda>t.
     Inr (sqrt (cmod t))))"

definition normalizeCol :: "Matrix \<Rightarrow> error + Matrix" where
  "normalizeCol m =
     bindE (absCol m) (\<lambda>a.
     bindE (reciprocal a) (\<lambda>s.
     Inr (timesScalar m s)))"

definition normalizeDensity :: "Matrix \<Rightarrow> error + Matrix" where
  "normalizeDensity m =
     bindE (trace m) (\<lambda>t.
     bindE (reciprocal (cmod t)) (\<lambda>s.
     Inr (timesScalar m s)))"

definition controlify :: "Matrix \<Rightarrow> 32 word \<Rightarrow> Matrix" where
  "controlify matrix controlMask =
     (let w = width matrix;
          h = height matrix;
          newBuf =
            fold (\<lambda>r. fold (\<lambda>c buf.
                if (controlMask AND word_of_nat r) \<noteq> controlMask
                   \<or> (controlMask AND word_of_nat c) \<noteq> controlMask
                then buf[r * w + c := (if r = c then 1 else 0)]
                else buf) [0..<w]) [0..<h] (rawBuffer matrix)
      in \<lparr>width = w, height = h, rawBuffer = newBuf\<rparr>)"

definition expandOp :: "Matrix \<Rightarrow> nat \<Rightarrow> nat \<Rightarrow> nat list \<Rightarrow> Matrix" where
  "expandOp singleQubitOperationMatrix qubitIndex numQubits controls =
     (let controlMask = fold (\<lambda>e a. a OR shiftLeftOne e) controls 0;
          opMatrix =
            fold (\<lambda>i opMatrix.
                let m = (if i = qubitIndex then singleQubitOperationMatrix else identity 2)
                in tensorProduct m opMatrix)
              [0..<numQubits] \<lparr>width = 1, height = 1, rawBuffer = [1]\<rparr>
      in controlify opMatrix controlMask)"

definition postselectCol :: "Matrix \<Rightarrow> nat \<Rightarrow> bool \<Rightarrow> error + Matrix" where
  "postselectCol col qubitIndex qubitValue =
     (let mask = shiftLeftOne qubitIndex;
          h = height col;
          newBuf =
            fold (\<lambda>i buf.
                if ((word_of_nat i AND mask) \<noteq> 0) \<noteq> qubitValue then buf[i := 0] else buf)
              [0..<h] (rawBuffer col)
      in normalizeCol \<lparr>width = 1, height = h, rawBuffer = newBuf\<rparr>)"

definition postselectDensity :: "Matrix \<Rightarrow> nat \<Rightarrow> bool \<Rightarrow> error + Matrix" where
  "postselectDensity densityMatrix qubitIndex qubitValue =
     (let mask = shiftLeftOne qubitIndex;
          w = width densityMatrix;
          h = height densityMatrix;
          newBuf =
            fold (\<lambda>c. fold (\<lambda>r buf.
                if ((word_of_nat c AND mask) \<noteq> 0) \<noteq> qubitValue
                   \<or> ((word_of_nat r AND mask) \<noteq> 0) \<noteq> qubitValue
                then buf[r * w + c := 0]
                else buf) [0..<h]) [0..<w] (rawBuffer densityMatrix)
      in normalizeDensity \<lparr>width = w, height = h, rawBuffer = newBuf\<rparr>)"

record EveQuantumComputer =
  actualHiddenState :: Matrix
  inferredStateDensity :: Matrix
  operationCount :: nat
  expectedIgnoranceErrors :: real

text \<open>The constructor; \<open>Inl ValidationError\<close> is its \<open>throw\<close>.\<close>

definition newEveQuantumComputer :: "Matrix \<Rightarrow> error + EveQuantumComputer" where
  "newEveQuantumComputer initialState =
     (if \<not> isPowerOf2 (height initialState) \<or> width initialState \<noteq> 1
      then Inl ValidationError
      else
        bindE (normalizeCol initialState) (\<lambda>a.
        bindE (normalizeDensity (identity (height initialState))) (\<lambda>d.
        Inr \<lparr>actualHiddenState = a, inferredStateDensity = d,
             operationCount = 0, expectedIgnoranceErrors = 0\<rparr>)))"

text \<open>
  \<open>applyOperation\<close> mutates the object and may throw afterwards, so the model returns the
  outcome together with the state the object is left in.
\<close>

definition applyOperation ::
  "Matrix \<Rightarrow> EveQuantumComputer \<Rightarrow> (error + unit) \<times> EveQuantumComputer" where
  "applyOperation opMatrix this =
     (let this1 = this\<lparr>operationCount := operationCount this + 1\<rparr> in
      if width opMatrix \<noteq> height (actualHiddenState this1)
         \<or> height opMatrix \<noteq> height (actualHiddenState this1)
         \<or> \<not> isUnitary opMatrix (1 / 1000)
      then (Inl OperationError, this1)
      else
        (case timesMatrix opMatrix (actualHiddenState this1) of
           Inl e \<Rightarrow> (Inl e, this1)
         | Inr a \<Rightarrow>
            (let this2 = this1\<lparr>actualHiddenState := a\<rparr> in
             (case bindE (timesMatrix opMatrix (inferredStateDensity this2))
                     (\<lambda>p. timesMatrix p (adjoint opMatrix)) of
                Inl e \<Rightarrow> (Inl e, this2)
              | Inr d \<Rightarrow> (Inr (), this2\<lparr>inferredStateDensity := d\<rparr>)))))"

text \<open>
  The loop of \<open>measureQubit\<close> runs over the even buffer positions \<open>i = 2j\<close>; \<open>j = i >> 1\<close> is
  the basis index, \<open>actualBuf.length / 2\<close> the number of amplitudes, and
  \<open>inferredBuf[i * (actualBuf.length/2 + 1)]\<close> the real part of the complex entry at position
  \<open>j * (length + 1)\<close>. A read past the end of a typed array gives \<open>undefined\<close>, which the
  addition turns into \<open>NaN\<close>.
\<close>

definition onNess :: "complex list \<Rightarrow> complex list \<Rightarrow> nat \<Rightarrow> error + real \<times> real" where
  "onNess actualBuf inferredBuf qubitIndex =
     fold (\<lambda>j acc.
         bindE acc (\<lambda>(actualOnNess, predictedOnNess).
           if (word_of_nat j AND shiftLeftOne qubitIndex) \<noteq> 0
           then let cr = Re (actualBuf ! j);
                    ci = Im (actualBuf ! j)
                in if j * (length actualBuf + 1) < length inferredBuf
                   then Inr (actualOnNess + (cr * cr + ci * ci),
                             predictedOnNess + Re (inferredBuf ! (j * (length actualBuf + 1))))
                   else Inl NonFinite
           else Inr (actualOnNess, predictedOnNess)))
       [0..<length actualBuf] (Inr (0, 0))"

text \<open>\<open>measureQubit\<close>; the argument \<open>sample\<close> is the value that \<open>Math.random()\<close> returns.\<close>

definition measureQubit ::
  "nat \<Rightarrow> real \<Rightarrow> EveQuantumComputer \<Rightarrow> error + bool \<times> EveQuantumComputer" where
  "measureQubit qubitIndex sample this =
     (let this1 = this\<lparr>operationCount := operationCount this + 1\<rparr> in
      bindE (onNess (rawBuffer (actualHiddenState this1))
               (rawBuffer (inferredStateDensity this1)) qubitIndex)
        (\<lambda>(actualOnNess, predictedOnNess).
      let result = (sample < actualOnNess);
          this2 = this1\<lparr>expectedIgnoranceErrors :=
                    expectedIgnoranceErrors this1 + \<bar>predictedOnNess - actualOnNess\<bar>\<rparr>
      in
      bindE (postselectCol (actualHiddenState this2) qubitIndex result) (\<lambda>a.
      bindE (postselectDensity (inferredStateDensity this2) qubitIndex result) (\<lambda>d.
      Inr (result, this2\<lparr>actualHiddenState := a, inferredStateDensity := d\<rparr>)))))"

text \<open>
  \<open>expandOperation\<close>: \<open>numQubits\<close> is \<open>Math.log2\<close> of the height, a real number, and the loop
  \<open>for (i = 0; i < numQubits; i++)\<close> of \<open>expandOp\<close> runs once for every natural number below
  it, that is \<open>\<lceil>numQubits\<rceil>\<close> times.
\<close>

definition expandOperation ::
  "EveQuantumComputer \<Rightarrow> Matrix \<Rightarrow> nat \<Rightarrow> nat list \<Rightarrow> Matrix" where
  "expandOperation this singleQubitOperationMatrix targetQubit qubitsUsedAsControls =
     (let n = log 2 (real (height (actualHiddenState this)))
      in expandOp singleQubitOperationMatrix targetQubit (nat \<lceil>n\<rceil>) qubitsUsedAsControls)"

definition qubitTraceDistance :: "Matrix \<Rightarrow> Matrix \<Rightarrow> string option" where
  "qubitTraceDistance d1 d2 =
     (let (x1, y1, z1) = qubitDensityMatrixToBlochVector d1;
          (x2, y2, z2) = qubitDensityMatrixToBlochVector d2;
          (dx, dy, dz) = (x2 - x1, y2 - y1, z2 - z1)
      in toFixed 4 (sqrt (dx * dx + dy * dy + dz * dz) / 2))"

section \<open>Notions used to state the properties\<close>

text \<open>The computational basis state with index \<open>c\<close> of a register of dimension \<open>d\<close>, as a column.\<close>

definition basisState :: "nat \<Rightarrow> nat \<Rightarrow> Matrix" where
  "basisState d c = generate 1 d (\<lambda>r _. if r = c then 1 else 0)"

text \<open>The sum of the squared magnitudes of all entries; for a column, its squared norm.\<close>

definition squaredNorm :: "Matrix \<Rightarrow> real" where
  "squaredNorm m = (\<Sum>c<width m. \<Sum>r<height m. (cmod (cell m r c))\<^sup>2)"

text \<open>
  A simulator over a register of dimension \<open>d\<close>: the true state is a column of height \<open>d\<close>
  and the inferred density matrix is \<open>d\<close> by \<open>d\<close>, each with a buffer of matching length.
\<close>

definition hasDimension :: "EveQuantumComputer \<Rightarrow> nat \<Rightarrow> bool" where
  "hasDimension this d =
     (wellFormed (actualHiddenState this)
      \<and> width (actualHiddenState this) = 1 \<and> height (actualHiddenState this) = d
      \<and> wellFormed (inferredStateDensity this)
      \<and> width (inferredStateDensity this) = d \<and> height (inferredStateDensity this) = d)"

text \<open>
  A unitary operator on a register of dimension \<open>d\<close>, without tolerance: both products of
  the matrix with its adjoint are the identity.
\<close>

definition exactlyUnitary :: "Matrix \<Rightarrow> nat \<Rightarrow> bool" where
  "exactlyUnitary u d =
     (wellFormed u \<and> width u = d \<and> height u = d
      \<and> timesMatrix u (adjoint u) = Inr (identity d)
      \<and> timesMatrix (adjoint u) u = Inr (identity d))"

text \<open>
  Post-selection as the specification words it: the column with the amplitudes that are
  inconsistent with the outcome \<open>v\<close> of qubit \<open>k\<close> zeroed, and the matrix with every entry
  whose row or column index is inconsistent with it zeroed (before renormalisation).
\<close>

definition zeroInconsistentAmplitudes :: "Matrix \<Rightarrow> nat \<Rightarrow> bool \<Rightarrow> Matrix" where
  "zeroInconsistentAmplitudes col k v =
     generate 1 (height col) (\<lambda>r c. if bit r k = v then cell col r 0 else 0)"

definition zeroInconsistentEntries :: "Matrix \<Rightarrow> nat \<Rightarrow> bool \<Rightarrow> Matrix" where
  "zeroInconsistentEntries m k v =
     generate (width m) (height m)
       (\<lambda>r c. if bit r k = v \<and> bit c k = v then cell m r c else 0)"

text \<open>
  The probability mass that a column and a density matrix give to the outcome \<open>v\<close> of
  qubit \<open>k\<close>: the squared magnitudes, respectively the diagonal entries, summed over the
  basis indices whose bit \<open>k\<close> is \<open>v\<close>.
\<close>

definition columnMass :: "Matrix \<Rightarrow> nat \<Rightarrow> bool \<Rightarrow> real" where
  "columnMass col k v = (\<Sum>j\<in>{j. j < height col \<and> bit j k = v}. (cmod (cell col j 0))\<^sup>2)"

definition diagonalMass :: "Matrix \<Rightarrow> nat \<Rightarrow> bool \<Rightarrow> complex" where
  "diagonalMass m k v = (\<Sum>j\<in>{j. j < height m \<and> bit j k = v}. cell m j j)"

text \<open>A diagonal of non-negative reals, as every density matrix has.\<close>

definition nonnegativeDiagonal :: "Matrix \<Rightarrow> bool" where
  "nonnegativeDiagonal m =
     (list_all (\<lambda>i. Im (cell m i i) = 0 \<and> 0 \<le> Re (cell m i i)) [0..<height m])"

text \<open>The Euclidean distance between the Bloch vectors of two 2x2 density matrices.\<close>

definition blochDistance :: "Matrix \<Rightarrow> Matrix \<Rightarrow> real" where
  "blochDistance d1 d2 =
     (case (qubitDensityMatrixToBlochVector d1, qubitDensityMatrixToBlochVector d2) of
        ((x1, y1, z1), (x2, y2, z2)) \<Rightarrow> sqrt ((x2 - x1)\<^sup>2 + (y2 - y1)\<^sup>2 + (z2 - z1)\<^sup>2))"

text \<open>The natural number that a string of decimal digits denotes.\<close>

definition digitsValue :: "string \<Rightarrow> nat" where
  "digitsValue s = foldl (\<lambda>v c. 10 * v + (of_char c - 48)) 0 s"

text \<open>
  The simulators that the program can build: by the constructor, and from there by calls
  of \<open>applyOperation\<close> and \<open>measureQubit\<close> that return with finite states.
\<close>

inductive reachable :: "EveQuantumComputer \<Rightarrow> bool" where
  constructed:
    "wellFormed v \<Longrightarrow> newEveQuantumComputer v = Inr this \<Longrightarrow> reachable this"
| applied:
    "reachable this \<Longrightarrow> applyOperation u this = (Inr (), this') \<Longrightarrow> reachable this'"
| measured:
    "reachable this \<Longrightarrow> measureQubit k sample this = Inr (b, this') \<Longrightarrow> reachable this'"

text \<open>
  The quadratic form \<open>x\<^sup>\<dagger> m x\<close> of a matrix and the inner product \<open>\<langle>col, x\<rangle>\<close> of a column with a
  vector \<open>x\<close>; a density matrix \<open>m\<close> covers a state \<open>col\<close> when it is positive semidefinite
  and dominates a positive multiple of the projector on \<open>col\<close>.
\<close>

definition expectation :: "Matrix \<Rightarrow> (nat \<Rightarrow> complex) \<Rightarrow> complex" where
  "expectation m x = (\<Sum>r<height m. \<Sum>c<width m. cnj (x r) * cell m r c * x c)"

definition overlap :: "Matrix \<Rightarrow> (nat \<Rightarrow> complex) \<Rightarrow> complex" where
  "overlap col x = (\<Sum>r<height col. cnj (cell col r 0) * x r)"

definition covers :: "Matrix \<Rightarrow> Matrix \<Rightarrow> bool" where
  "covers m col =
     (\<exists>e>0. \<forall>x. Im (expectation m x) = 0 \<and> e * (cmod (overlap col x))\<^sup>2 \<le> Re (expectation m x))"

subsection \<open>Concrete inputs\<close>

text \<open>
  The Pauli X matrix (\<open>Matrix.PAULI_X\<close> in \<open>main.js\<close>), the one-qubit column \<open>[1, 0]\<close>, and the
  one-qubit simulator that the constructor builds from that column.
\<close>

definition pauliX :: Matrix where
  "pauliX = \<lparr>width = 2, height = 2, rawBuffer = [0, 1, 1, 0]\<rparr>"

definition ketZero :: Matrix where
  "ketZero = \<lparr>width = 1, height = 2, rawBuffer = [1, 0]\<rparr>"

definition freshQubit :: EveQuantumComputer where
  "freshQubit =
     \<lparr>actualHiddenState = ketZero,
      inferredStateDensity = \<lparr>width = 2, height = 2, rawBuffer = [1 / 2, 0, 0, 1 / 2]\<rparr>,
      operationCount = 0, expectedIgnoranceErrors = 0\<rparr>"

text \<open>The same simulator after \<open>measureQubit(0)\<close> has returned \<open>false\<close>.\<close>

definition measuredQubit :: EveQuantumComputer where
  "measuredQubit =
     \<lparr>actualHiddenState = ketZero,
      inferredStateDensity = \<lparr>width = 2, height = 2, rawBuffer = [1, 0, 0, 0]\<rparr>,
      operationCount = 1, expectedIgnoranceErrors = 1 / 2\<rparr>"

text \<open>
  The maximally mixed qubit, and a density matrix whose Bloch vector lies at the distance
  \<open>2 / 100000\<close> from it.
\<close>

definition mixedQubit :: Matrix where
  "mixedQubit = \<lparr>width = 2, height = 2, rawBuffer = [1 / 2, 0, 0, 1 / 2]\<rparr>"

definition tiltedQubit :: Matrix where
  "tiltedQubit =
     \<lparr>width = 2, height = 2, rawBuffer = [1 / 2 + 1 / 100000, 0, 0, 1 / 2 - 1 / 100000]\<rparr>"

text \<open>
  The operator \<open>0.9997 * X\<close>: it is not unitary, its product with its adjoint is
  \<open>0.99940009\<close> times the identity, at the distance \<open>0.00059991 * sqrt 2\<close> from the identity,
  which is below the tolerance \<open>0.001\<close> of \<open>applyOperation\<close>. Then the simulator that
  \<open>applyOperation\<close> leaves when the operator is applied to \<open>freshQubit\<close>, and the simulator
  that \<open>measureQubit(1)\<close> leaves after that.
\<close>

definition shrinkX :: Matrix where
  "shrinkX = \<lparr>width = 2, height = 2, rawBuffer = [0, 9997 / 10000, 9997 / 10000, 0]\<rparr>"

definition shrunkQubit :: EveQuantumComputer where
  "shrunkQubit =
     \<lparr>actualHiddenState = \<lparr>width = 1, height = 2, rawBuffer = [0, 9997 / 10000]\<rparr>,
      inferredStateDensity =
        \<lparr>width = 2, height = 2,
         rawBuffer = [99940009 / 200000000, 0, 0, 99940009 / 200000000]\<rparr>,
      operationCount = 1, expectedIgnoranceErrors = 0\<rparr>"

definition rescaledQubit :: EveQuantumComputer where
  "rescaledQubit =
     \<lparr>actualHiddenState = \<lparr>width = 1, height = 2, rawBuffer = [0, 1]\<rparr>,
      inferredStateDensity = \<lparr>width = 2, height = 2, rawBuffer = [1 / 2, 0, 0, 1 / 2]\<rparr>,
      operationCount = 2, expectedIgnoranceErrors = 0\<rparr>"

section \<open>Buffers, indices and bit masks\<close>

subsection \<open>Matrices from their entries\<close>

lemma width_generate [simp]: "width (generate w h f) = w"
  and height_generate [simp]: "height (generate w h f) = h"
  and wellFormed_generate [simp]: "wellFormed (generate w h f)"
  by (simp_all add: generate_def wellFormed_def)

lemma index_bound: "r < h \<Longrightarrow> c < w \<Longrightarrow> r * w + c < w * (h::nat)"
proof -
  assume a: "r < h" "c < w"
  then have "r * w + c < r * w + w" by simp
  also have "\<dots> = Suc r * w" by simp
  also from a have "\<dots> \<le> h * w" by (intro mult_le_mono1) simp
  finally show ?thesis by (simp add: mult.commute)
qed

lemma cell_generate [simp]: "r < h \<Longrightarrow> c < w \<Longrightarrow> cell (generate w h f) r c = f r c"
  by (simp add: generate_def cell_def index_bound)

lemma Matrix_eqI:
  assumes "wellFormed a" "wellFormed b" "width a = width b" "height a = height b"
    and "\<And>r c. r < height a \<Longrightarrow> c < width a \<Longrightarrow> cell a r c = cell b r c"
  shows "a = b"
proof -
  have "rawBuffer a = rawBuffer b"
  proof (rule nth_equalityI)
    show "length (rawBuffer a) = length (rawBuffer b)"
      using assms by (simp add: wellFormed_def)
  next
    fix k assume "k < length (rawBuffer a)"
    then have k: "k < width a * height a" using assms by (simp add: wellFormed_def)
    then have w: "0 < width a" by (cases "width a") auto
    have "k div width a < height a" using k w
      by (simp add: less_mult_imp_div_less mult.commute)
    moreover have "k mod width a < width a" using w by simp
    ultimately have "cell a (k div width a) (k mod width a) = cell b (k div width a) (k mod width a)"
      by (rule assms(5))
    then show "rawBuffer a ! k = rawBuffer b ! k"
      using assms(3) by (simp add: cell_def)
  qed
  with assms(3,4) show ?thesis by simp
qed

subsection \<open>Loops that overwrite buffer positions\<close>

lemma fold_product:
  "fold (\<lambda>a. fold (g a) ds) as b = fold (\<lambda>(a, d). g a d) (List.product as ds) b"
  by (induction as arbitrary: b) (simp_all add: fold_map comp_def)

lemma length_fold_update [simp]:
  "length (fold (\<lambda>i buf. if P i then buf[f i := v i] else buf) is buf) = length buf"
  by (induction "is" arbitrary: buf) simp_all

lemma nth_fold_update:
  assumes "j < length buf"
  shows "(fold (\<lambda>i buf. if P i then buf[f i := v i] else buf) is buf) ! j =
     (if \<exists>i\<in>set is. P i \<and> f i = j
      then v (last (filter (\<lambda>i. P i \<and> f i = j) is)) else buf ! j)"
  using assms
proof (induction "is" arbitrary: buf rule: rev_induct)
  case Nil
  show ?case by simp
next
  case (snoc x xs)
  then show ?case by (auto simp: nth_list_update)
qed

lemma nth_fold_update_inj:
  assumes "inj_on f (set is)" "i \<in> set is" "f i < length buf"
  shows "(fold (\<lambda>i buf. if P i then buf[f i := v i] else buf) is buf) ! f i =
     (if P i then v i else buf ! f i)"
proof -
  have eq: "\<And>i'. i' \<in> set is \<Longrightarrow> (P i' \<and> f i' = f i) = (P i \<and> i' = i)"
    using assms(1,2) by (auto dest: inj_onD)
  have "filter (\<lambda>i'. P i' \<and> f i' = f i) is = filter (\<lambda>i'. P i \<and> i' = i) is"
    by (rule filter_cong) (simp_all add: eq)
  moreover have "P i \<Longrightarrow> last (filter (\<lambda>i'. i' = i) is) = i"
  proof -
    have "filter (\<lambda>i'. i' = i) is \<noteq> []" using assms(2) by (simp add: filter_empty_conv)
    then have "last (filter (\<lambda>i'. i' = i) is) \<in> set (filter (\<lambda>i'. i' = i) is)"
      by (rule last_in_set)
    then show ?thesis by simp
  qed
  ultimately show ?thesis
    using assms(2,3) by (auto simp: nth_fold_update eq)
qed

lemma bindE_simps [simp]: "bindE (Inl e) f = Inl e" "bindE (Inr v) f = f v"
  by (simp_all add: bindE_def)

subsection \<open>Masks on 32-bit integers\<close>

lemma bit_test: "((word_of_nat j :: 32 word) AND shiftLeftOne k \<noteq> 0) = bit j (k mod 32)"
proof -
  have "shiftLeftOne k = (2 :: 32 word) ^ (k mod 32)"
    by (simp add: shiftLeftOne_def push_bit_eq_mult)
  then show ?thesis
    by (simp add: and_exp_eq_0_iff_not_bit bit_simps)
qed

lemma bit_controlMask:
  "bit (fold (\<lambda>e a. a OR shiftLeftOne e) controls (a :: 32 word)) i
     = (bit a i \<or> (\<exists>e\<in>set controls. e mod 32 = i))"
proof (induction controls arbitrary: a)
  case Nil
  show ?case by simp
next
  case (Cons e es)
  have "bit (shiftLeftOne e) i = (e mod 32 = i)"
    by (auto simp: shiftLeftOne_def bit_simps)
  then show ?case by (auto simp: Cons bit_simps)
qed

lemma controlMask_test:
  "((fold (\<lambda>e a. a OR shiftLeftOne e) controls 0 AND (word_of_nat r :: 32 word))
      \<noteq> fold (\<lambda>e a. a OR shiftLeftOne e) controls 0)
   = (\<exists>e\<in>set controls. \<not> bit r (e mod 32))"
proof -
  define cm :: "32 word" where "cm = fold (\<lambda>e a. a OR shiftLeftOne e) controls 0"
  have b: "\<And>i. bit cm i = (\<exists>e\<in>set controls. e mod 32 = i)"
    by (simp add: cm_def bit_controlMask)
  have "(cm AND word_of_nat r = cm) = (\<forall>i. bit cm i \<longrightarrow> bit (word_of_nat r :: 32 word) i)"
  proof -
    have "\<And>i. bit cm i \<Longrightarrow> i < 32"
      using bit_imp_le_length [of cm] by simp
    then show ?thesis
      unfolding bit_eq_iff [of "cm AND word_of_nat r" cm] by (auto simp: bit_and_iff)
  qed
  also have "\<dots> = (\<forall>e\<in>set controls. bit r (e mod 32))"
    by (auto simp: b bit_simps)
  finally show ?thesis by (simp add: cm_def)
qed

subsection \<open>Nested loops over rows and columns\<close>

lemma index_inj:
  assumes "c < w" "c' < w" "r * w + c = r' * w + (c'::nat)"
  shows "r = r' \<and> c = c'"
proof -
  have "(r * w + c) div w = r" "(r' * w + c') div w = r'"
    using assms(1,2) by simp_all
  then have "r = r'" unfolding assms(3) by simp
  with assms(3) show ?thesis by simp
qed

lemma fold_rows_cols:
  "fold (\<lambda>r. fold (\<lambda>c buf. if P r c then buf[r * w + c := v r c] else buf) cs) rs buf =
   fold (\<lambda>i buf. if P (fst i) (snd i) then buf[fst i * w + snd i := v (fst i) (snd i)] else buf)
     (List.product rs cs) buf"
proof -
  have "(\<lambda>(a, d) buf. if P a d then buf[a * w + d := v a d] else buf) =
        (\<lambda>i buf. if P (fst i) (snd i) then buf[fst i * w + snd i := v (fst i) (snd i)] else buf)"
    by (simp add: fun_eq_iff)
  then show ?thesis
    using fold_product [of "\<lambda>r c buf. if P r c then buf[r * w + c := v r c] else buf" cs rs buf]
    by simp
qed

lemma fold_cols_rows:
  "fold (\<lambda>c. fold (\<lambda>r buf. if P r c then buf[r * w + c := v r c] else buf) rs) cs buf =
   fold (\<lambda>i buf. if P (snd i) (fst i) then buf[snd i * w + fst i := v (snd i) (fst i)] else buf)
     (List.product cs rs) buf"
proof -
  have "(\<lambda>(a, d) buf. if P d a then buf[d * w + a := v d a] else buf) =
        (\<lambda>i buf. if P (snd i) (fst i) then buf[snd i * w + fst i := v (snd i) (fst i)] else buf)"
    by (simp add: fun_eq_iff)
  then show ?thesis
    using fold_product [of "\<lambda>c r buf. if P r c then buf[r * w + c := v r c] else buf" rs cs buf]
    by simp
qed

lemma length_fold_rows_cols [simp]:
  "length (fold (\<lambda>r. fold (\<lambda>c buf. if P r c then buf[r * w + c := v r c] else buf) cs) rs buf)
     = length buf"
  by (simp add: fold_rows_cols)

lemma length_fold_cols_rows [simp]:
  "length (fold (\<lambda>c. fold (\<lambda>r buf. if P r c then buf[r * w + c := v r c] else buf) rs) cs buf)
     = length buf"
  by (simp add: fold_cols_rows)

lemma nth_fold_rows_cols:
  assumes "r < h" "c < w" "length buf = w * h"
  shows "fold (\<lambda>r. fold (\<lambda>c buf. if P r c then buf[r * w + c := v r c] else buf) [0..<w])
           [0..<h] buf ! (r * w + c)
         = (if P r c then v r c else buf ! (r * w + c))"
proof -
  have inj: "inj_on (\<lambda>i. fst i * w + snd i) (set (List.product [0..<h] [0..<w]))"
    by (auto simp: inj_on_def dest: index_inj)
  have mem: "(r, c) \<in> set (List.product [0..<h] [0..<w])"
    using assms by simp
  have bound: "(\<lambda>i. fst i * w + snd i) (r, c) < length buf"
    using assms by (simp add: index_bound)
  show ?thesis
    unfolding fold_rows_cols
    using nth_fold_update_inj [OF inj mem bound,
        of "\<lambda>i. P (fst i) (snd i)" "\<lambda>i. v (fst i) (snd i)"]
    by simp
qed

lemma nth_fold_cols_rows:
  assumes "r < h" "c < w" "length buf = w * h"
  shows "fold (\<lambda>c. fold (\<lambda>r buf. if P r c then buf[r * w + c := v r c] else buf) [0..<h])
           [0..<w] buf ! (r * w + c)
         = (if P r c then v r c else buf ! (r * w + c))"
proof -
  have inj: "inj_on (\<lambda>i. snd i * w + fst i) (set (List.product [0..<w] [0..<h]))"
    by (auto simp: inj_on_def dest: index_inj)
  have mem: "(c, r) \<in> set (List.product [0..<w] [0..<h])"
    using assms by simp
  have bound: "(\<lambda>i. snd i * w + fst i) (c, r) < length buf"
    using assms by (simp add: index_bound)
  show ?thesis
    unfolding fold_cols_rows
    using nth_fold_update_inj [OF inj mem bound,
        of "\<lambda>i. P (snd i) (fst i)" "\<lambda>i. v (snd i) (fst i)"]
    by simp
qed

lemma nth_fold_index:
  assumes "i < h" "length buf = h"
  shows "fold (\<lambda>i buf. if P i then buf[i := v i] else buf) [0..<h] buf ! i
         = (if P i then v i else buf ! i)"
  using nth_fold_update_inj [of "\<lambda>i. i" "[0..<h]" i buf P v] assms by simp

section \<open>Operator expansion\<close>

subsection \<open>controlify\<close>

lemma controlify_dims [simp]:
  "width (controlify m cm) = width m" "height (controlify m cm) = height m"
  by (simp_all add: controlify_def Let_def)

lemma wellFormed_controlify [simp]: "wellFormed m \<Longrightarrow> wellFormed (controlify m cm)"
  by (simp add: controlify_def Let_def wellFormed_def)

lemma cell_controlify:
  assumes "wellFormed m" "r < height m" "c < width m"
  shows "cell (controlify m cm) r c =
     (if (cm AND word_of_nat r) \<noteq> cm \<or> (cm AND word_of_nat c) \<noteq> cm
      then (if r = c then 1 else 0) else cell m r c)"
  using assms
  by (simp add: controlify_def Let_def cell_def wellFormed_def
      nth_fold_rows_cols [where h = "height m"])

subsection \<open>expandOp\<close>

lemma tensorProduct_dims [simp]:
  "width (tensorProduct a b) = width a * width b"
  "height (tensorProduct a b) = height a * height b"
  "wellFormed (tensorProduct a b)"
  by (simp_all add: tensorProduct_def)

lemma identity_dims [simp]:
  "width (identity n) = n" "height (identity n) = n" "wellFormed (identity n)"
  by (simp_all add: identity_def)

lemma cell_identity [simp]:
  "r < n \<Longrightarrow> c < n \<Longrightarrow> cell (identity n) r c = (if r = c then 1 else 0)"
  by (simp add: identity_def)

lemma expand_loop_dims:
  fixes t :: nat
  assumes "width M = 2" "height M = 2"
  defines "step \<equiv> (\<lambda>i opMatrix. let m = (if i = t then M else identity 2)
                                 in tensorProduct m opMatrix)"
  shows "width (fold step [0..<n] \<lparr>width = 1, height = 1, rawBuffer = [1]\<rparr>) = 2 ^ n
       \<and> height (fold step [0..<n] \<lparr>width = 1, height = 1, rawBuffer = [1]\<rparr>) = 2 ^ n
       \<and> wellFormed (fold step [0..<n] \<lparr>width = 1, height = 1, rawBuffer = [1]\<rparr>)"
proof (induction n)
  case 0
  show ?case by (simp add: wellFormed_def)
next
  case (Suc n)
  then show ?case using assms(1,2) by (simp add: step_def Let_def)
qed

lemma expandOp_dims:
  assumes "width M = 2" "height M = 2"
  shows "width (expandOp M t n C) = 2 ^ n" "height (expandOp M t n C) = 2 ^ n"
    "wellFormed (expandOp M t n C)"
  using expand_loop_dims [OF assms, of t n] by (simp_all add: expandOp_def Let_def)

lemma cell_expandOp_blocked:
  assumes "width M = 2" "height M = 2" "r < 2 ^ n" "c < 2 ^ n"
    and "(\<exists>e\<in>set C. \<not> bit r (e mod 32)) \<or> (\<exists>e\<in>set C. \<not> bit c (e mod 32))"
  shows "cell (expandOp M t n C) r c = (if r = c then 1 else 0)"
proof -
  define cm :: "32 word" where "cm = fold (\<lambda>e a. a OR shiftLeftOne e) C 0"
  define step where "step = (\<lambda>i opMatrix. let m = (if i = t then M else identity 2)
                                 in tensorProduct m opMatrix)"
  define op where "op = fold step [0..<n] \<lparr>width = 1, height = 1, rawBuffer = [1]\<rparr>"
  have dims: "width op = 2 ^ n" "height op = 2 ^ n" "wellFormed op"
    using expand_loop_dims [OF assms(1,2), of t n] by (simp_all add: op_def step_def)
  have E: "expandOp M t n C = controlify op cm"
    by (simp add: expandOp_def Let_def cm_def op_def step_def)
  have "(cm AND word_of_nat r) \<noteq> cm \<or> (cm AND word_of_nat c) \<noteq> cm"
    using assms(5) unfolding cm_def controlMask_test .
  then show ?thesis
    unfolding E using dims assms(3,4) by (simp add: cell_controlify)
qed

lemma basisState_dims [simp]:
  "width (basisState d c) = 1" "height (basisState d c) = d" "wellFormed (basisState d c)"
  by (simp_all add: basisState_def)

lemma cell_basisState [simp]: "r < d \<Longrightarrow> cell (basisState d c) r 0 = (if r = c then 1 else 0)"
  by (simp add: basisState_def)

lemma sum_delta_lessThan:
  fixes f :: "nat \<Rightarrow> complex"
  assumes "c < n"
  shows "(\<Sum>k<n. f k * (if k = c then 1 else 0)) = f c"
proof -
  have "(\<Sum>k<n. f k * (if k = c then 1 else 0)) = (\<Sum>k<n. if k = c then f k else 0)"
    by (rule sum.cong) simp_all
  also have "\<dots> = f c" using assms by (simp add: sum.delta)
  finally show ?thesis .
qed

lemma timesMatrix_basisState:
  assumes "width E = d" "c < d"
  shows "timesMatrix E (basisState d c) = Inr (generate 1 (height E) (\<lambda>r _. cell E r c))"
proof -
  have "generate 1 (height E) (\<lambda>r ca. \<Sum>k<d. cell E r k * cell (basisState d c) k ca)
      = generate 1 (height E) (\<lambda>r _. cell E r c)"
  proof (rule Matrix_eqI)
    fix r ca assume "r < height (generate 1 (height E)
        (\<lambda>r ca. \<Sum>k<d. cell E r k * cell (basisState d c) k ca))"
      and "ca < width (generate 1 (height E)
        (\<lambda>r ca. \<Sum>k<d. cell E r k * cell (basisState d c) k ca))"
    then have r: "r < height E" and ca: "ca = 0" by simp_all
    have "(\<Sum>k<d. cell E r k * cell (basisState d c) k 0)
        = (\<Sum>k<d. cell E r k * (if k = c then 1 else 0))"
      by (rule sum.cong) simp_all
    also have "\<dots> = cell E r c" using assms(2) by (rule sum_delta_lessThan)
    finally show "cell (generate 1 (height E)
        (\<lambda>r ca. \<Sum>k<d. cell E r k * cell (basisState d c) k ca)) r ca
      = cell (generate 1 (height E) (\<lambda>r _. cell E r c)) r ca"
      using r ca by simp
  qed simp_all
  then show ?thesis using assms(1) by (simp add: timesMatrix_def)
qed

text \<open>
  Claim C6, as amended. For a single-qubit matrix \<open>M\<close>, a target qubit \<open>t\<close>, a register of
  \<open>n\<close> qubits and a non-empty control list \<open>C\<close> whose positions are below 32 (the width
  of the integers that \<open>1 << e\<close> works on): the operator produced by \<open>expandOperation\<close> has
  the identity value, 1 on the diagonal and 0 off it, at every entry \<open>(r, c)\<close> where the bits
  of \<open>r\<close> or of \<open>c\<close> at the positions in \<open>C\<close> are not all 1; hence it maps every basis state
  whose control bits are not all 1 to itself.
\<close>

theorem expandOperation_controls_act_as_identity:
  assumes "width M = 2" and "height M = 2"
    and "height (actualHiddenState this) = 2 ^ n"
    and "C \<noteq> []" and "\<forall>e\<in>set C. e < 32"
  shows "(\<forall>r<2 ^ n. \<forall>c<2 ^ n.
            \<not> (\<forall>e\<in>set C. bit r e) \<or> \<not> (\<forall>e\<in>set C. bit c e) \<longrightarrow>
            cell (expandOperation this M t C) r c = (if r = c then 1 else 0))
       \<and> (\<forall>c<2 ^ n. \<not> (\<forall>e\<in>set C. bit c e) \<longrightarrow>
            timesMatrix (expandOperation this M t C) (basisState (2 ^ n) c)
              = Inr (basisState (2 ^ n) c))"
proof -
  have "log 2 (real (2 ^ n :: nat)) = real n" by simp
  then have E: "expandOperation this M t C = expandOp M t n C"
    using assms(3) by (simp add: expandOperation_def Let_def)
  have m32: "\<And>e. e \<in> set C \<Longrightarrow> e mod 32 = e" using assms(5) by simp
  have entries: "cell (expandOp M t n C) r c = (if r = c then 1 else 0)"
    if "r < 2 ^ n" "c < 2 ^ n" "\<not> (\<forall>e\<in>set C. bit r e) \<or> \<not> (\<forall>e\<in>set C. bit c e)" for r c
    using that m32 by (intro cell_expandOp_blocked assms(1,2)) auto
  have fixed: "timesMatrix (expandOp M t n C) (basisState (2 ^ n) c) = Inr (basisState (2 ^ n) c)"
    if c: "c < 2 ^ n" and off: "\<not> (\<forall>e\<in>set C. bit c e)" for c
  proof -
    have "generate 1 (2 ^ n) (\<lambda>r _. cell (expandOp M t n C) r c) = basisState (2 ^ n) c"
      by (rule Matrix_eqI) (use c off entries in simp_all)
    then show ?thesis
      using timesMatrix_basisState [of "expandOp M t n C" "2 ^ n" c] c
      by (simp add: expandOp_dims assms(1,2))
  qed
  show ?thesis unfolding E using entries fixed by blast
qed

section \<open>The simulator\<close>

subsection \<open>Scaling, norm and trace\<close>

lemma timesScalar_dims [simp]:
  "width (timesScalar m s) = width m" "height (timesScalar m s) = height m"
  "wellFormed (timesScalar m s) = wellFormed m"
  by (simp_all add: timesScalar_def wellFormed_def)

lemma cell_timesScalar:
  "wellFormed m \<Longrightarrow> r < height m \<Longrightarrow> c < width m \<Longrightarrow>
     cell (timesScalar m s) r c = cell m r c * complex_of_real s"
  by (simp add: timesScalar_def cell_def wellFormed_def index_bound)

lemma timesScalar_one [simp]: "timesScalar m 1 = m"
  by (simp add: timesScalar_def)

lemma adjoint_dims [simp]:
  "width (adjoint m) = height m" "height (adjoint m) = width m" "wellFormed (adjoint m)"
  by (simp_all add: adjoint_def)

lemma cell_adjoint [simp]:
  "r < width m \<Longrightarrow> c < height m \<Longrightarrow> cell (adjoint m) r c = cnj (cell m c r)"
  by (simp add: adjoint_def)

lemma timesMatrix_eq:
  "width a = height b \<Longrightarrow>
     timesMatrix a b =
       Inr (generate (width b) (height a) (\<lambda>r c. \<Sum>k<width a. cell a r k * cell b k c))"
  by (simp add: timesMatrix_def)

lemma trace_eq: "width m = height m \<Longrightarrow> trace m = Inr (\<Sum>i<height m. cell m i i)"
  by (simp add: trace_def)

lemma squaredNorm_nonneg [simp]: "0 \<le> squaredNorm m"
  by (simp add: squaredNorm_def sum_nonneg)

lemma absCol_eq: "absCol m = Inr (sqrt (squaredNorm m))"
proof -
  let ?p = "generate (width m) (width m)
              (\<lambda>r c. \<Sum>k<height m. cell (adjoint m) r k * cell m k c)"
  have "(\<Sum>i<width m. cell ?p i i)
      = (\<Sum>i<width m. \<Sum>k<height m. cnj (cell m k i) * cell m k i)"
    by (intro sum.cong refl) simp
  also have "\<dots> = (\<Sum>i<width m. \<Sum>k<height m. complex_of_real ((cmod (cell m k i))\<^sup>2))"
  proof (intro sum.cong refl)
    fix i k
    show "cnj (cell m k i) * cell m k i = complex_of_real ((cmod (cell m k i))\<^sup>2)"
      unfolding complex_norm_square by (simp add: mult.commute)
  qed
  also have "\<dots> = complex_of_real (squaredNorm m)"
    by (simp add: squaredNorm_def)
  finally have "(\<Sum>i<width m. cell ?p i i) = complex_of_real (squaredNorm m)" .
  then show ?thesis
    by (simp add: absCol_def timesMatrix_eq trace_eq)
qed

lemma normalizeCol_eq:
  "normalizeCol m =
     (if squaredNorm m = 0 then Inl NonFinite
      else Inr (timesScalar m (1 / sqrt (squaredNorm m))))"
  by (simp add: normalizeCol_def absCol_eq reciprocal_def)

lemma normalizeDensity_eq:
  "width m = height m \<Longrightarrow>
   normalizeDensity m =
     (if (\<Sum>i<height m. cell m i i) = 0 then Inl NonFinite
      else Inr (timesScalar m (1 / cmod (\<Sum>i<height m. cell m i i))))"
  by (simp add: normalizeDensity_def trace_eq reciprocal_def)

lemma squaredNorm_column:
  "width m = 1 \<Longrightarrow> squaredNorm m = (\<Sum>r<height m. (cmod (cell m r 0))\<^sup>2)"
  by (simp add: squaredNorm_def)

lemma squaredNorm_timesScalar:
  assumes "wellFormed m"
  shows "squaredNorm (timesScalar m s) = s\<^sup>2 * squaredNorm m"
proof -
  have "squaredNorm (timesScalar m s)
      = (\<Sum>c<width m. \<Sum>r<height m. s\<^sup>2 * (cmod (cell m r c))\<^sup>2)"
    unfolding squaredNorm_def timesScalar_dims
    by (intro sum.cong refl)
      (simp add: cell_timesScalar assms norm_mult power_mult_distrib mult.commute)
  then show ?thesis by (simp add: squaredNorm_def sum_distrib_left)
qed

lemma squaredNorm_normalized:
  assumes "wellFormed m" "squaredNorm m \<noteq> 0"
  shows "squaredNorm (timesScalar m (1 / sqrt (squaredNorm m))) = 1"
proof -
  have "0 < squaredNorm m" using assms(2) squaredNorm_nonneg [of m] by linarith
  then show ?thesis
    by (simp add: squaredNorm_timesScalar assms(1) power_divide)
qed

subsection \<open>The constructor\<close>

lemma isPowerOf2_iff: "isPowerOf2 h = (\<exists>n. h = 2 ^ n)"
proof
  assume "isPowerOf2 h"
  then show "\<exists>n. h = 2 ^ n" by (auto simp: isPowerOf2_def)
next
  assume "\<exists>n. h = 2 ^ n"
  then obtain n where n: "h = 2 ^ n" ..
  have "n < 2 ^ n" by (rule less_exp)
  then have "n \<in> set [0..<Suc h]" using n by simp
  then show "isPowerOf2 h" unfolding isPowerOf2_def using n by (simp add: image_iff)
qed

lemma trace_identity: "trace (identity n) = Inr (of_nat n)"
proof -
  have "(\<Sum>i<n. cell (identity n) i i) = (\<Sum>i<n. 1)"
    by (intro sum.cong refl) simp
  then show ?thesis by (simp add: trace_eq)
qed

lemma normalizeDensity_identity:
  "0 < n \<Longrightarrow> normalizeDensity (identity n) = Inr (timesScalar (identity n) (1 / real n))"
  by (simp add: normalizeDensity_def trace_identity reciprocal_def)

lemma newEveQuantumComputer_eq:
  "newEveQuantumComputer v =
     (if \<not> (\<exists>n. height v = 2 ^ n) \<or> width v \<noteq> 1 then Inl ValidationError
      else if squaredNorm v = 0 then Inl NonFinite
      else Inr \<lparr>actualHiddenState = timesScalar v (1 / sqrt (squaredNorm v)),
               inferredStateDensity = timesScalar (identity (height v)) (1 / real (height v)),
               operationCount = 0, expectedIgnoranceErrors = 0\<rparr>)"
proof (cases "(\<exists>n. height v = 2 ^ n) \<and> width v = 1")
  case True
  then have "0 < height v" by auto
  with True show ?thesis
    by (simp add: newEveQuantumComputer_def isPowerOf2_iff normalizeCol_eq
        normalizeDensity_identity)
next
  case False
  then show ?thesis by (auto simp: newEveQuantumComputer_def isPowerOf2_iff)
qed

text \<open>
  Claim C5. Constructing a simulator from a matrix \<open>v\<close> throws the validation error if and
  only if the height of \<open>v\<close> is not a power of two or its width is not 1. When a simulator
  is constructed, its true state is \<open>v\<close> divided by its norm (and has norm 1), its inferred
  density matrix is the identity of the same dimension divided by that dimension (trace
  1), and the operation count and the misprediction score are 0. A valid \<open>v\<close> with a
  non-zero entry always constructs a simulator (the division by the norm of the zero
  vector is the non-finite case).
\<close>

theorem constructor_validates_and_initialises:
  assumes "wellFormed v"
  shows "(newEveQuantumComputer v = Inl ValidationError
            \<longleftrightarrow> \<not> (\<exists>n. height v = 2 ^ n) \<or> width v \<noteq> 1)
       \<and> (\<forall>this. newEveQuantumComputer v = Inr this \<longrightarrow>
             wellFormed (actualHiddenState this)
           \<and> width (actualHiddenState this) = 1
           \<and> height (actualHiddenState this) = height v
           \<and> (\<forall>r<height v. cell (actualHiddenState this) r 0
                  = cell v r 0 / complex_of_real (sqrt (squaredNorm v)))
           \<and> squaredNorm (actualHiddenState this) = 1
           \<and> wellFormed (inferredStateDensity this)
           \<and> width (inferredStateDensity this) = height v
           \<and> height (inferredStateDensity this) = height v
           \<and> (\<forall>r<height v. \<forall>c<height v. cell (inferredStateDensity this) r c
                  = (if r = c then 1 / of_nat (height v) else 0))
           \<and> trace (inferredStateDensity this) = Inr 1
           \<and> operationCount this = 0
           \<and> expectedIgnoranceErrors this = 0)
       \<and> ((\<exists>n. height v = 2 ^ n) \<and> width v = 1 \<and> squaredNorm v \<noteq> 0
             \<longrightarrow> (\<exists>this. newEveQuantumComputer v = Inr this))"
proof -
  have throws: "newEveQuantumComputer v = Inl ValidationError
          \<longleftrightarrow> \<not> (\<exists>n. height v = 2 ^ n) \<or> width v \<noteq> 1"
    by (simp add: newEveQuantumComputer_eq)
  have constructs: "\<exists>this. newEveQuantumComputer v = Inr this"
    if "(\<exists>n. height v = 2 ^ n) \<and> width v = 1 \<and> squaredNorm v \<noteq> 0"
    using that by (simp add: newEveQuantumComputer_eq)
  have initial: "wellFormed (actualHiddenState this)
           \<and> width (actualHiddenState this) = 1
           \<and> height (actualHiddenState this) = height v
           \<and> (\<forall>r<height v. cell (actualHiddenState this) r 0
                  = cell v r 0 / complex_of_real (sqrt (squaredNorm v)))
           \<and> squaredNorm (actualHiddenState this) = 1
           \<and> wellFormed (inferredStateDensity this)
           \<and> width (inferredStateDensity this) = height v
           \<and> height (inferredStateDensity this) = height v
           \<and> (\<forall>r<height v. \<forall>c<height v. cell (inferredStateDensity this) r c
                  = (if r = c then 1 / of_nat (height v) else 0))
           \<and> trace (inferredStateDensity this) = Inr 1
           \<and> operationCount this = 0
           \<and> expectedIgnoranceErrors this = 0"
    if ok: "newEveQuantumComputer v = Inr this" for this
  proof (intro conjI)
    from ok have valid: "\<exists>n. height v = 2 ^ n" "width v = 1" and nz: "squaredNorm v \<noteq> 0"
      by (auto simp: newEveQuantumComputer_eq split: if_splits)
    from valid(1) have pos: "0 < height v" by auto
    from ok valid nz have
      a: "actualHiddenState this = timesScalar v (1 / sqrt (squaredNorm v))" and
      d: "inferredStateDensity this = timesScalar (identity (height v)) (1 / real (height v))" and
      k: "operationCount this = 0" "expectedIgnoranceErrors this = 0"
      by (auto simp: newEveQuantumComputer_eq split: if_splits)
    show "wellFormed (actualHiddenState this)" "width (actualHiddenState this) = 1"
      "height (actualHiddenState this) = height v"
      using assms valid(2) by (simp_all add: a)
    show "\<forall>r<height v. cell (actualHiddenState this) r 0
            = cell v r 0 / complex_of_real (sqrt (squaredNorm v))"
      using assms valid(2) by (simp add: a cell_timesScalar)
    show "squaredNorm (actualHiddenState this) = 1"
      unfolding a using assms nz by (rule squaredNorm_normalized)
    show "wellFormed (inferredStateDensity this)" "width (inferredStateDensity this) = height v"
      "height (inferredStateDensity this) = height v"
      by (simp_all add: d)
    show "\<forall>r<height v. \<forall>c<height v. cell (inferredStateDensity this) r c
            = (if r = c then 1 / of_nat (height v) else 0)"
      by (simp add: d cell_timesScalar)
    have "(\<Sum>i<height v. cell (inferredStateDensity this) i i)
        = (\<Sum>i<height v. 1 / of_nat (height v))"
      by (intro sum.cong refl) (simp add: d cell_timesScalar)
    also have "\<dots> = 1" using pos by simp
    finally show "trace (inferredStateDensity this) = Inr 1"
      by (simp add: trace_eq d)
    show "operationCount this = 0" "expectedIgnoranceErrors this = 0" using k by simp_all
  qed
  show ?thesis using throws constructs initial by blast
qed

subsection \<open>Sums over index pairs\<close>

lemma unitary_preserves_norm_fn:
  fixes U :: "nat \<Rightarrow> nat \<Rightarrow> complex" and \<psi> :: "nat \<Rightarrow> complex"
  assumes "\<And>k l. k < d \<Longrightarrow> l < d \<Longrightarrow> (\<Sum>r<d. cnj (U r k) * U r l) = (if k = l then 1 else 0)"
  shows "(\<Sum>r<d. cnj (\<Sum>k<d. U r k * \<psi> k) * (\<Sum>l<d. U r l * \<psi> l)) = (\<Sum>k<d. cnj (\<psi> k) * \<psi> k)"
proof -
  have "(\<Sum>r<d. cnj (\<Sum>k<d. U r k * \<psi> k) * (\<Sum>l<d. U r l * \<psi> l))
      = (\<Sum>r<d. \<Sum>k<d. \<Sum>l<d. (cnj (\<psi> k) * \<psi> l) * (cnj (U r k) * U r l))"
  proof (intro sum.cong refl)
    fix r
    have "cnj (\<Sum>k<d. U r k * \<psi> k) * (\<Sum>l<d. U r l * \<psi> l)
        = (\<Sum>k<d. cnj (U r k) * cnj (\<psi> k)) * (\<Sum>l<d. U r l * \<psi> l)"
      by simp
    also have "\<dots> = (\<Sum>k<d. \<Sum>l<d. (cnj (U r k) * cnj (\<psi> k)) * (U r l * \<psi> l))"
      by (rule sum_product)
    also have "\<dots> = (\<Sum>k<d. \<Sum>l<d. (cnj (\<psi> k) * \<psi> l) * (cnj (U r k) * U r l))"
      by (intro sum.cong refl) (simp add: mult_ac)
    finally show "cnj (\<Sum>k<d. U r k * \<psi> k) * (\<Sum>l<d. U r l * \<psi> l)
        = (\<Sum>k<d. \<Sum>l<d. (cnj (\<psi> k) * \<psi> l) * (cnj (U r k) * U r l))" .
  qed
  also have "\<dots> = (\<Sum>k<d. \<Sum>r<d. \<Sum>l<d. (cnj (\<psi> k) * \<psi> l) * (cnj (U r k) * U r l))"
    by (rule sum.swap)
  also have "\<dots> = (\<Sum>k<d. \<Sum>l<d. \<Sum>r<d. (cnj (\<psi> k) * \<psi> l) * (cnj (U r k) * U r l))"
    by (rule sum.cong [OF refl]) (rule sum.swap)
  also have "\<dots> = (\<Sum>k<d. \<Sum>l<d. (cnj (\<psi> k) * \<psi> l) * (if k = l then 1 else 0))"
    by (intro sum.cong refl) (simp add: sum_distrib_left [symmetric] assms)
  also have "\<dots> = (\<Sum>k<d. \<Sum>l<d. (cnj (\<psi> k) * \<psi> l) * (if l = k then 1 else 0))"
    by (intro sum.cong refl) simp
  also have "\<dots> = (\<Sum>k<d. cnj (\<psi> k) * \<psi> k)"
    by (intro sum.cong refl) (simp add: sum_delta_lessThan)
  finally show ?thesis .
qed

lemma unitary_preserves_trace_fn:
  fixes U :: "nat \<Rightarrow> nat \<Rightarrow> complex" and \<rho> :: "nat \<Rightarrow> nat \<Rightarrow> complex"
  assumes "\<And>k l. k < d \<Longrightarrow> l < d \<Longrightarrow> (\<Sum>r<d. cnj (U r k) * U r l) = (if k = l then 1 else 0)"
  shows "(\<Sum>r<d. \<Sum>k<d. (\<Sum>j<d. U r j * \<rho> j k) * cnj (U r k)) = (\<Sum>j<d. \<rho> j j)"
proof -
  have "(\<Sum>r<d. \<Sum>k<d. (\<Sum>j<d. U r j * \<rho> j k) * cnj (U r k))
      = (\<Sum>r<d. \<Sum>k<d. \<Sum>j<d. \<rho> j k * (cnj (U r k) * U r j))"
  proof (intro sum.cong refl)
    fix r k
    have "(\<Sum>j<d. U r j * \<rho> j k) * cnj (U r k) = (\<Sum>j<d. (U r j * \<rho> j k) * cnj (U r k))"
      by (rule sum_distrib_right)
    also have "\<dots> = (\<Sum>j<d. \<rho> j k * (cnj (U r k) * U r j))"
      by (intro sum.cong refl) (simp add: mult_ac)
    finally show "(\<Sum>j<d. U r j * \<rho> j k) * cnj (U r k)
        = (\<Sum>j<d. \<rho> j k * (cnj (U r k) * U r j))" .
  qed
  also have "\<dots> = (\<Sum>k<d. \<Sum>r<d. \<Sum>j<d. \<rho> j k * (cnj (U r k) * U r j))"
    by (rule sum.swap)
  also have "\<dots> = (\<Sum>k<d. \<Sum>j<d. \<Sum>r<d. \<rho> j k * (cnj (U r k) * U r j))"
    by (rule sum.cong [OF refl]) (rule sum.swap)
  also have "\<dots> = (\<Sum>k<d. \<Sum>j<d. \<rho> j k * (if k = j then 1 else 0))"
    by (intro sum.cong refl) (simp add: sum_distrib_left [symmetric] assms)
  also have "\<dots> = (\<Sum>j<d. \<Sum>k<d. \<rho> j k * (if k = j then 1 else 0))"
    by (rule sum.swap)
  also have "\<dots> = (\<Sum>j<d. \<rho> j j)"
    by (intro sum.cong refl) (simp add: sum_delta_lessThan)
  finally show ?thesis .
qed

subsection \<open>applyOperation\<close>

lemma applyOperation_rejects:
  "width u \<noteq> height (actualHiddenState this) \<or> height u \<noteq> height (actualHiddenState this)
     \<or> \<not> isUnitary u (1 / 1000) \<Longrightarrow>
   applyOperation u this =
     (Inl OperationError, this\<lparr>operationCount := operationCount this + 1\<rparr>)"
  by (auto simp: applyOperation_def Let_def)

lemma applyOperation_accepts:
  assumes "hasDimension this d" "width u = d" "height u = d" "isUnitary u (1 / 1000)"
  shows "applyOperation u this =
     (Inr (),
      this\<lparr>operationCount := operationCount this + 1,
           actualHiddenState :=
             generate 1 d (\<lambda>r c. \<Sum>k<d. cell u r k * cell (actualHiddenState this) k c),
           inferredStateDensity :=
             generate d d (\<lambda>r c. \<Sum>k<d.
               cell (generate d d
                 (\<lambda>r c. \<Sum>j<d. cell u r j * cell (inferredStateDensity this) j c)) r k
               * cell (adjoint u) k c)\<rparr>)"
  using assms by (simp add: applyOperation_def Let_def hasDimension_def timesMatrix_eq)

text \<open>
  Claim C1. For a simulator whose true state is a column of height \<open>2^n\<close> (and whose density
  matrix is \<open>2^n\<close> by \<open>2^n\<close>) and every matrix \<open>U\<close>: \<open>applyOperation\<close> throws if and only if \<open>U\<close> is
  not \<open>2^n\<close> by \<open>2^n\<close> or fails the unitarity check at tolerance 0.001, and it throws nothing
  but its own error. When it succeeds, the true state becomes the product of \<open>U\<close> and the
  old true state, the inferred density matrix becomes \<open>U\<close> times the old one times the
  adjoint of \<open>U\<close>, the operation counter is one more than before and the misprediction
  score is as before.
\<close>

theorem applyOperation_throws_or_evolves:
  assumes "hasDimension this (2 ^ n)"
  shows "((\<exists>e. fst (applyOperation u this) = Inl e)
            \<longleftrightarrow> width u \<noteq> 2 ^ n \<or> height u \<noteq> 2 ^ n \<or> \<not> isUnitary u (1 / 1000))
       \<and> (\<forall>e. fst (applyOperation u this) = Inl e \<longrightarrow> e = OperationError)
       \<and> (fst (applyOperation u this) = Inr () \<longrightarrow>
             hasDimension (snd (applyOperation u this)) (2 ^ n)
           \<and> (\<forall>r<2 ^ n. cell (actualHiddenState (snd (applyOperation u this))) r 0
                  = (\<Sum>k<2 ^ n. cell u r k * cell (actualHiddenState this) k 0))
           \<and> (\<forall>r<2 ^ n. \<forall>c<2 ^ n. cell (inferredStateDensity (snd (applyOperation u this))) r c
                  = (\<Sum>k<2 ^ n. (\<Sum>j<2 ^ n. cell u r j * cell (inferredStateDensity this) j k)
                       * cnj (cell u c k)))
           \<and> operationCount (snd (applyOperation u this)) = operationCount this + 1
           \<and> expectedIgnoranceErrors (snd (applyOperation u this))
                = expectedIgnoranceErrors this)"
proof (cases "width u \<noteq> 2 ^ n \<or> height u \<noteq> 2 ^ n \<or> \<not> isUnitary u (1 / 1000)")
  case True
  then have "applyOperation u this =
     (Inl OperationError, this\<lparr>operationCount := operationCount this + 1\<rparr>)"
    using assms by (intro applyOperation_rejects) (simp add: hasDimension_def)
  with True show ?thesis by simp
next
  case False
  then have u: "width u = 2 ^ n" "height u = 2 ^ n" "isUnitary u (1 / 1000)" by simp_all
  note eq = applyOperation_accepts [OF assms u]
  have "\<And>r c. r < 2 ^ n \<Longrightarrow> c < 2 ^ n \<Longrightarrow>
      (\<Sum>k<2 ^ n. cell (generate (2 ^ n) (2 ^ n)
          (\<lambda>r c. \<Sum>j<2 ^ n. cell u r j * cell (inferredStateDensity this) j c)) r k
          * cell (adjoint u) k c)
      = (\<Sum>k<2 ^ n. (\<Sum>j<2 ^ n. cell u r j * cell (inferredStateDensity this) j k)
          * cnj (cell u c k))"
    by (intro sum.cong refl) (simp add: u)
  then show ?thesis using False by (simp add: eq hasDimension_def)
qed

subsection \<open>Exactly unitary operators\<close>

lemma distanceTo_self [simp]: "distanceTo a a = 0"
  by (simp add: distanceTo_def)

lemma exactlyUnitary_isUnitary:
  assumes "exactlyUnitary u d" "0 \<le> epsilon"
  shows "isUnitary u epsilon"
  using assms by (simp add: exactlyUnitary_def isUnitary_def isApproximatelyEqualTo_def)

lemma exactlyUnitary_columns:
  assumes "exactlyUnitary u d" "k < d" "l < d"
  shows "(\<Sum>r<d. cnj (cell u r k) * cell u r l) = (if k = l then 1 else 0)"
proof -
  from assms(1) have dims: "width u = d" "height u = d"
    and eq: "timesMatrix (adjoint u) u = Inr (identity d)"
    by (simp_all add: exactlyUnitary_def)
  from eq dims have "generate d d (\<lambda>r c. \<Sum>j<d. cell (adjoint u) r j * cell u j c) = identity d"
    by (simp add: timesMatrix_eq)
  then have "cell (generate d d (\<lambda>r c. \<Sum>j<d. cell (adjoint u) r j * cell u j c)) k l
      = cell (identity d) k l" by simp
  then have "(\<Sum>j<d. cell (adjoint u) k j * cell u j l) = (if k = l then 1 else 0)"
    using assms(2,3) by simp
  moreover have "(\<Sum>j<d. cell (adjoint u) k j * cell u j l) = (\<Sum>r<d. cnj (cell u r k) * cell u r l)"
    by (intro sum.cong refl) (simp add: dims assms(2))
  ultimately show ?thesis by simp
qed

lemma squaredNorm_complex:
  "complex_of_real (squaredNorm m) = (\<Sum>c<width m. \<Sum>r<height m. cnj (cell m r c) * cell m r c)"
proof -
  have "\<And>z. complex_of_real ((cmod z)\<^sup>2) = cnj z * z"
    unfolding complex_norm_square by (simp add: mult.commute)
  then show ?thesis by (simp add: squaredNorm_def)
qed

lemma exactlyUnitary_preserves_norm:
  assumes "exactlyUnitary u d" "width m = 1" "height m = d"
  shows "squaredNorm (generate 1 d (\<lambda>r c. \<Sum>k<d. cell u r k * cell m k c)) = squaredNorm m"
proof -
  let ?m' = "generate 1 d (\<lambda>r c. \<Sum>k<d. cell u r k * cell m k c)"
  have "complex_of_real (squaredNorm ?m')
      = (\<Sum>r<d. cnj (\<Sum>k<d. cell u r k * cell m k 0) * (\<Sum>l<d. cell u r l * cell m l 0))"
    unfolding squaredNorm_complex by simp
  also have "\<dots> = (\<Sum>k<d. cnj (cell m k 0) * cell m k 0)"
    by (rule unitary_preserves_norm_fn) (rule exactlyUnitary_columns [OF assms(1)])
  also have "\<dots> = complex_of_real (squaredNorm m)"
    unfolding squaredNorm_complex by (simp add: assms(2,3))
  finally show ?thesis by (simp only: of_real_eq_iff)
qed

lemma exactlyUnitary_preserves_trace:
  assumes "exactlyUnitary u d"
  shows "(\<Sum>i<d. \<Sum>k<d. (\<Sum>j<d. cell u i j * cell m j k) * cnj (cell u i k)) = (\<Sum>j<d. cell m j j)"
  by (rule unitary_preserves_trace_fn) (rule exactlyUnitary_columns [OF assms])

text \<open>
  Claim C4, as amended. For an exactly unitary operator \<open>U\<close> of the simulator's dimension
  (both products of \<open>U\<close> with its adjoint are the identity, with no tolerance) and every
  simulator state: \<open>applyOperation(U)\<close> succeeds, and it leaves the norm of the true state
  and the trace of the inferred density matrix as they were; so the norm is still 1 and
  the trace is still 1 whenever they were 1 before the call.
\<close>

theorem applyOperation_preserves_norm_and_trace:
  assumes "hasDimension this d" and "exactlyUnitary u d"
  shows "fst (applyOperation u this) = Inr ()
       \<and> hasDimension (snd (applyOperation u this)) d
       \<and> absCol (actualHiddenState (snd (applyOperation u this)))
           = absCol (actualHiddenState this)
       \<and> trace (inferredStateDensity (snd (applyOperation u this)))
           = trace (inferredStateDensity this)
       \<and> (absCol (actualHiddenState this) = Inr 1
            \<and> trace (inferredStateDensity this) = Inr 1 \<longrightarrow>
          absCol (actualHiddenState (snd (applyOperation u this))) = Inr 1
            \<and> trace (inferredStateDensity (snd (applyOperation u this))) = Inr 1)"
proof -
  from assms(2) have u: "width u = d" "height u = d" by (simp_all add: exactlyUnitary_def)
  have ok: "isUnitary u (1 / 1000)"
    using assms(2) by (rule exactlyUnitary_isUnitary) simp
  note eq = applyOperation_accepts [OF assms(1) u ok]
  from assms(1) have dims: "width (actualHiddenState this) = 1"
    "height (actualHiddenState this) = d" "width (inferredStateDensity this) = d"
    "height (inferredStateDensity this) = d"
    by (simp_all add: hasDimension_def)
  have norm': "absCol (generate 1 d (\<lambda>r c. \<Sum>k<d. cell u r k * cell (actualHiddenState this) k c))
      = absCol (actualHiddenState this)"
    unfolding absCol_eq exactlyUnitary_preserves_norm [OF assms(2) dims(1,2)] by (rule refl)
  have "(\<Sum>i<d. \<Sum>k<d.
          cell (generate d d (\<lambda>r c. \<Sum>j<d. cell u r j * cell (inferredStateDensity this) j c)) i k
          * cell (adjoint u) k i)
      = (\<Sum>i<d. \<Sum>k<d. (\<Sum>j<d. cell u i j * cell (inferredStateDensity this) j k)
          * cnj (cell u i k))"
    by (intro sum.cong refl) (simp add: u)
  also have "\<dots> = (\<Sum>j<d. cell (inferredStateDensity this) j j)"
    by (rule exactlyUnitary_preserves_trace [OF assms(2)])
  finally have trace': "trace (generate d d (\<lambda>r c. \<Sum>k<d.
          cell (generate d d (\<lambda>r c. \<Sum>j<d. cell u r j * cell (inferredStateDensity this) j c)) r k
          * cell (adjoint u) k c)) = trace (inferredStateDensity this)"
    by (simp add: trace_eq dims)
  show ?thesis
    unfolding eq using norm' trace' by (simp add: hasDimension_def)
qed

subsection \<open>Facts about the concrete inputs\<close>

lemma less_two_cases: "(r::nat) < 2 \<Longrightarrow> r = 0 \<or> r = 1"
  by arith

lemma sum_lessThan_two: "(\<Sum>k<2. f k) = f 0 + (f (1::nat) :: 'a :: comm_monoid_add)"
  by (simp add: numeral_2_eq_2)

lemma sum_lessThan_one: "(\<Sum>k<1. f k) = (f (0::nat) :: 'a :: comm_monoid_add)"
  by simp

lemma ketZero_simps [simp]:
  "width ketZero = 1" "height ketZero = 2" "wellFormed ketZero"
  "cell ketZero 0 0 = 1" "cell ketZero (Suc 0) 0 = 0"
  by (simp_all add: ketZero_def wellFormed_def cell_def)

lemma pauliX_simps [simp]:
  "width pauliX = 2" "height pauliX = 2" "wellFormed pauliX"
  "cell pauliX 0 0 = 0" "cell pauliX 0 (Suc 0) = 1" "cell pauliX (Suc 0) 0 = 1"
  "cell pauliX (Suc 0) (Suc 0) = 0"
  by (simp_all add: pauliX_def wellFormed_def cell_def)

lemma freshQubit_simps [simp]:
  "actualHiddenState freshQubit = ketZero"
  "width (inferredStateDensity freshQubit) = 2" "height (inferredStateDensity freshQubit) = 2"
  "wellFormed (inferredStateDensity freshQubit)"
  "cell (inferredStateDensity freshQubit) 0 0 = 1 / 2"
  "cell (inferredStateDensity freshQubit) 0 (Suc 0) = 0"
  "cell (inferredStateDensity freshQubit) (Suc 0) 0 = 0"
  "cell (inferredStateDensity freshQubit) (Suc 0) (Suc 0) = 1 / 2"
  "operationCount freshQubit = 0" "expectedIgnoranceErrors freshQubit = 0"
  by (simp_all add: freshQubit_def wellFormed_def cell_def)

lemma hasDimension_freshQubit: "hasDimension freshQubit 2"
  by (simp add: hasDimension_def)

lemma squaredNorm_ketZero: "squaredNorm ketZero = 1"
  by (simp add: squaredNorm_def sum_lessThan_two)

lemma absCol_ketZero: "absCol ketZero = Inr 1"
  by (simp add: absCol_eq squaredNorm_ketZero)

lemma trace_freshQubit: "trace (inferredStateDensity freshQubit) = Inr 1"
  by (simp add: trace_eq sum_lessThan_two)

lemma exactlyUnitary_pauliX: "exactlyUnitary pauliX 2"
proof -
  have "generate 2 2 (\<lambda>r c. \<Sum>k<2. cell pauliX r k * cell (adjoint pauliX) k c) = identity 2"
    by (rule Matrix_eqI) (auto dest!: less_two_cases simp: sum_lessThan_two)
  moreover
  have "generate 2 2 (\<lambda>r c. \<Sum>k<2. cell (adjoint pauliX) r k * cell pauliX k c) = identity 2"
    by (rule Matrix_eqI) (auto dest!: less_two_cases simp: sum_lessThan_two)
  ultimately show ?thesis by (simp add: exactlyUnitary_def timesMatrix_eq)
qed

lemma newEveQuantumComputer_ketZero: "newEveQuantumComputer ketZero = Inr freshQubit"
proof -
  have "\<exists>n. (2::nat) = 2 ^ n" by (rule exI [of _ 1]) simp
  moreover have "timesScalar (identity 2) (1 / 2) = inferredStateDensity freshQubit"
    by (rule Matrix_eqI) (auto dest!: less_two_cases simp: cell_timesScalar)
  ultimately show ?thesis
    by (simp add: newEveQuantumComputer_eq squaredNorm_ketZero freshQubit_def)
qed

lemma expandOperation_freshQubit:
  "expandOperation freshQubit m t C = expandOp m t 1 C"
  by (simp add: expandOperation_def Let_def)

theorem expandOperation_controls_act_as_identity_witness:
  "width pauliX = 2 \<and> height pauliX = 2
   \<and> height (actualHiddenState freshQubit) = 2 ^ 1
   \<and> [0::nat] \<noteq> [] \<and> (0::nat) < 32 \<and> (0::nat) < 2 ^ 1 \<and> (1::nat) < 2 ^ 1
   \<and> \<not> bit (0::nat) 0
   \<and> cell (expandOperation freshQubit pauliX 0 [0]) 0 1 = 0
   \<and> cell (expandOperation freshQubit pauliX 0 [0]) 0 0 = 1
   \<and> timesMatrix (expandOperation freshQubit pauliX 0 [0]) (basisState (2 ^ 1) 0)
       = Inr (basisState (2 ^ 1) 0)"
proof -
  have h: "width pauliX = 2" "height pauliX = 2" "height (actualHiddenState freshQubit) = 2 ^ 1"
    "[0::nat] \<noteq> []" "\<forall>e\<in>set [0::nat]. e < 32"
    by simp_all
  note inst = expandOperation_controls_act_as_identity [OF h, of 0]
  have a: "cell (expandOperation freshQubit pauliX 0 [0]) 0 1 = 0"
    using inst [THEN conjunct1, rule_format, of 0 1] by simp
  have b: "cell (expandOperation freshQubit pauliX 0 [0]) 0 0 = 1"
    using inst [THEN conjunct1, rule_format, of 0 0] by simp
  have c: "timesMatrix (expandOperation freshQubit pauliX 0 [0]) (basisState (2 ^ 1) 0)
       = Inr (basisState (2 ^ 1) 0)"
    using inst [THEN conjunct2, rule_format, of 0] by simp
  show ?thesis using h a b c by simp
qed

text \<open>
  Claim C6 as stated admits every control list. A control position of 32 or more is
  reduced modulo 32 by the shift: on the one-qubit simulator, with the Pauli X matrix and
  the control list \<open>[32]\<close>, the mask is \<open>1 << 32 = 1\<close>. Bit 32 of the row and column index 1 is
  not set, yet the entry \<open>(1, 1)\<close> is left at the value 0 of the X matrix instead of the
  identity value 1.
\<close>

theorem expandOperation_control_index_wraps_counterexample:
  "[32::nat] \<noteq> [] \<and> \<not> bit (1::nat) 32
   \<and> cell (expandOperation freshQubit pauliX 0 [32]) 1 1 = 0"
proof -
  define one where "one = \<lparr>width = 1, height = 1, rawBuffer = [1 :: complex]\<rparr>"
  have cm: "fold (\<lambda>e a. a OR shiftLeftOne e) [32] (0 :: 32 word) = 1"
    by (simp add: shiftLeftOne_def)
  have E: "expandOperation freshQubit pauliX 0 [32] = controlify (tensorProduct pauliX one) 1"
    unfolding expandOperation_freshQubit expandOp_def cm Let_def one_def by simp
  have "cell (controlify (tensorProduct pauliX one) 1) 1 1 = cell (tensorProduct pauliX one) 1 1"
    by (subst cell_controlify) (simp_all add: one_def)
  also have "\<dots> = cell pauliX 1 1 * cell one 0 0"
    by (simp add: tensorProduct_def one_def)
  also have "\<dots> = 0"
    by simp
  finally have "cell (expandOperation freshQubit pauliX 0 [32]) 1 1 = 0" unfolding E .
  moreover have "\<not> bit (1::nat) 32" by (simp add: bit_iff_odd)
  ultimately show ?thesis by simp
qed

theorem constructor_validates_and_initialises_witness:
  "wellFormed ketZero
   \<and> newEveQuantumComputer ketZero = Inr freshQubit
   \<and> cell (actualHiddenState freshQubit) 0 0 = cell ketZero 0 0 / complex_of_real (sqrt (squaredNorm ketZero))
   \<and> squaredNorm (actualHiddenState freshQubit) = 1
   \<and> cell (inferredStateDensity freshQubit) 1 1 = 1 / of_nat (height ketZero)
   \<and> trace (inferredStateDensity freshQubit) = Inr 1
   \<and> operationCount freshQubit = 0
   \<and> expectedIgnoranceErrors freshQubit = 0
   \<and> wellFormed \<lparr>width = 1, height = 3, rawBuffer = [1, 0, 0]\<rparr>
   \<and> newEveQuantumComputer \<lparr>width = 1, height = 3, rawBuffer = [1, 0, 0]\<rparr> = Inl ValidationError"
proof -
  have wf: "wellFormed ketZero" by simp
  note good = constructor_validates_and_initialises [OF wf, THEN conjunct2, THEN conjunct1,
      rule_format, OF newEveQuantumComputer_ketZero]
  have a: "cell (actualHiddenState freshQubit) 0 0
      = cell ketZero 0 0 / complex_of_real (sqrt (squaredNorm ketZero))"
    using good by simp
  have d: "cell (inferredStateDensity freshQubit) 1 1 = 1 / of_nat (height ketZero)"
    using good by simp
  define v3 where "v3 = \<lparr>width = 1, height = 3, rawBuffer = [1, 0, 0 :: complex]\<rparr>"
  have wf3: "wellFormed v3" by (simp add: v3_def wellFormed_def)
  have "(3::nat) \<noteq> 2 ^ n" for n
  proof (cases n)
    case 0
    then show ?thesis by simp
  next
    case (Suc m)
    have "even ((2::nat) ^ Suc m)" by simp
    moreover have "odd (3::nat)" by simp
    ultimately show ?thesis unfolding Suc by metis
  qed
  then have "\<not> (\<exists>n. height v3 = 2 ^ n)" by (simp add: v3_def)
  then have bad: "newEveQuantumComputer v3 = Inl ValidationError"
    using constructor_validates_and_initialises [OF wf3, THEN conjunct1] by simp
  show ?thesis
    using wf newEveQuantumComputer_ketZero a d good wf3 bad unfolding v3_def by simp
qed

theorem applyOperation_throws_or_evolves_witness:
  "hasDimension freshQubit (2 ^ 1)
   \<and> fst (applyOperation pauliX freshQubit) = Inr ()
   \<and> cell (actualHiddenState (snd (applyOperation pauliX freshQubit))) 0 0 = 0
   \<and> cell (actualHiddenState (snd (applyOperation pauliX freshQubit))) 1 0 = 1
   \<and> cell (inferredStateDensity (snd (applyOperation pauliX freshQubit))) 0 0 = 1 / 2
   \<and> operationCount (snd (applyOperation pauliX freshQubit)) = 1
   \<and> fst (applyOperation \<lparr>width = 1, height = 1, rawBuffer = [1]\<rparr> freshQubit)
       = Inl OperationError"
proof -
  have h: "hasDimension freshQubit (2 ^ 1)" using hasDimension_freshQubit by simp
  note inst = applyOperation_throws_or_evolves [OF h]
  have unitary: "isUnitary pauliX (1 / 1000)"
    using exactlyUnitary_pauliX by (rule exactlyUnitary_isUnitary) simp
  have "\<not> (\<exists>e. fst (applyOperation pauliX freshQubit) = Inl e)"
    using inst [of pauliX, THEN conjunct1] unitary by simp
  then have ok: "fst (applyOperation pauliX freshQubit) = Inr ()"
    by (cases "fst (applyOperation pauliX freshQubit)") simp_all
  note after = inst [of pauliX, THEN conjunct2, THEN conjunct2, rule_format, OF ok]
  have c0: "cell (actualHiddenState (snd (applyOperation pauliX freshQubit))) 0 0 = 0"
    using after by (simp add: sum_lessThan_two)
  have c1: "cell (actualHiddenState (snd (applyOperation pauliX freshQubit))) 1 0 = 1"
    using after by (simp add: sum_lessThan_two)
  have d0: "cell (inferredStateDensity (snd (applyOperation pauliX freshQubit))) 0 0 = 1 / 2"
    using after by (simp add: sum_lessThan_two)
  have n1: "operationCount (snd (applyOperation pauliX freshQubit)) = 1"
    using after by simp
  define small where "small = \<lparr>width = 1, height = 1, rawBuffer = [1 :: complex]\<rparr>"
  have "\<exists>e. fst (applyOperation small freshQubit) = Inl e"
    using inst [of small, THEN conjunct1] by (simp add: small_def)
  then have bad: "fst (applyOperation small freshQubit) = Inl OperationError"
    using inst [of small, THEN conjunct2, THEN conjunct1] by auto
  show ?thesis using h ok c0 c1 d0 n1 bad unfolding small_def by simp
qed

theorem applyOperation_preserves_norm_and_trace_witness:
  "hasDimension freshQubit 2 \<and> exactlyUnitary pauliX 2
   \<and> absCol (actualHiddenState freshQubit) = Inr 1
   \<and> trace (inferredStateDensity freshQubit) = Inr 1
   \<and> fst (applyOperation pauliX freshQubit) = Inr ()
   \<and> absCol (actualHiddenState (snd (applyOperation pauliX freshQubit))) = Inr 1
   \<and> trace (inferredStateDensity (snd (applyOperation pauliX freshQubit))) = Inr 1"
proof -
  have a: "absCol (actualHiddenState freshQubit) = Inr 1" by (simp add: absCol_ketZero)
  show ?thesis
    using applyOperation_preserves_norm_and_trace
      [OF hasDimension_freshQubit exactlyUnitary_pauliX]
      hasDimension_freshQubit exactlyUnitary_pauliX a trace_freshQubit
    by simp
qed

text \<open>
  Claim C3 on the code. A call of \<open>applyOperation\<close> that fails has already incremented the
  operation counter: the simulator it leaves behind is the one before the call with an
  operation count one higher, so it is not the simulator before the call. The true state,
  the inferred density matrix and the misprediction score are untouched.
\<close>

theorem applyOperation_failure_counts_the_operation:
  assumes "fst (applyOperation u this) = Inl OperationError"
  shows "snd (applyOperation u this) = this\<lparr>operationCount := operationCount this + 1\<rparr>
       \<and> operationCount (snd (applyOperation u this)) \<noteq> operationCount this
       \<and> actualHiddenState (snd (applyOperation u this)) = actualHiddenState this
       \<and> inferredStateDensity (snd (applyOperation u this)) = inferredStateDensity this
       \<and> expectedIgnoranceErrors (snd (applyOperation u this)) = expectedIgnoranceErrors this"
proof -
  have "snd (applyOperation u this) = this\<lparr>operationCount := operationCount this + 1\<rparr>"
    using assms
    by (auto simp: applyOperation_def Let_def timesMatrix_def bindE_def
        split: if_splits sum.splits)
  then show ?thesis by simp
qed

theorem applyOperation_failure_counts_the_operation_witness:
  "fst (applyOperation \<lparr>width = 1, height = 1, rawBuffer = [1]\<rparr> freshQubit) = Inl OperationError
   \<and> operationCount freshQubit = 0
   \<and> operationCount (snd (applyOperation \<lparr>width = 1, height = 1, rawBuffer = [1]\<rparr> freshQubit)) = 1"
proof -
  have f: "fst (applyOperation \<lparr>width = 1, height = 1, rawBuffer = [1]\<rparr> freshQubit)
      = Inl OperationError"
    by (simp add: applyOperation_def Let_def)
  show ?thesis
    using f applyOperation_failure_counts_the_operation [OF f] by simp
qed

subsection \<open>Post-selection\<close>

lemma sum_if_mass:
  fixes f :: "nat \<Rightarrow> 'a :: comm_monoid_add"
  shows "(\<Sum>j<d. if P j then f j else 0) = sum f {j. j < d \<and> P j}"
proof -
  have "{j \<in> {..<d}. P j} = {j. j < d \<and> P j}" by auto
  then show ?thesis using sum.inter_filter [of "{..<d}" f P] by simp
qed

lemma zeroInconsistentAmplitudes_simps [simp]:
  "width (zeroInconsistentAmplitudes col k v) = 1"
  "height (zeroInconsistentAmplitudes col k v) = height col"
  "wellFormed (zeroInconsistentAmplitudes col k v)"
  "r < height col \<Longrightarrow>
     cell (zeroInconsistentAmplitudes col k v) r 0 = (if bit r k = v then cell col r 0 else 0)"
  by (simp_all add: zeroInconsistentAmplitudes_def)

lemma zeroInconsistentEntries_simps [simp]:
  "width (zeroInconsistentEntries m k v) = width m"
  "height (zeroInconsistentEntries m k v) = height m"
  "wellFormed (zeroInconsistentEntries m k v)"
  "r < height m \<Longrightarrow> c < width m \<Longrightarrow>
     cell (zeroInconsistentEntries m k v) r c
       = (if bit r k = v \<and> bit c k = v then cell m r c else 0)"
  by (simp_all add: zeroInconsistentEntries_def)

lemma postselectCol_eq:
  assumes "wellFormed col" "width col = 1"
  shows "postselectCol col k v = normalizeCol (zeroInconsistentAmplitudes col (k mod 32) v)"
proof -
  let ?buf = "fold (\<lambda>i buf.
      if ((word_of_nat i AND shiftLeftOne k) \<noteq> 0) \<noteq> v then buf[i := 0] else buf)
    [0..<height col] (rawBuffer col)"
  have len: "length (rawBuffer col) = height col"
    using assms by (simp add: wellFormed_def)
  have "\<lparr>width = 1, height = height col, rawBuffer = ?buf\<rparr>
      = zeroInconsistentAmplitudes col (k mod 32) v"
  proof (rule Matrix_eqI)
    show "wellFormed \<lparr>width = 1, height = height col, rawBuffer = ?buf\<rparr>"
      by (simp add: wellFormed_def len)
  next
    fix r c
    assume "r < height \<lparr>width = 1, height = height col, rawBuffer = ?buf\<rparr>"
      and "c < width \<lparr>width = 1, height = height col, rawBuffer = ?buf\<rparr>"
    then have r: "r < height col" and c: "c = 0" by simp_all
    have "?buf ! r = (if bit r (k mod 32) \<noteq> v then 0 else rawBuffer col ! r)"
      using nth_fold_index [OF r len,
          of "\<lambda>i. ((word_of_nat i AND shiftLeftOne k) \<noteq> 0) \<noteq> v" "\<lambda>i. 0"]
      by (simp add: bit_test)
    moreover have "cell \<lparr>width = 1, height = height col, rawBuffer = ?buf\<rparr> r c = ?buf ! r"
      using c by (simp add: cell_def)
    moreover have "cell col r 0 = rawBuffer col ! r"
      using assms(2) by (simp add: cell_def)
    ultimately show "cell \<lparr>width = 1, height = height col, rawBuffer = ?buf\<rparr> r c
        = cell (zeroInconsistentAmplitudes col (k mod 32) v) r c"
      using r c by auto
  qed simp_all
  then show ?thesis by (simp add: postselectCol_def Let_def)
qed

lemma postselectDensity_eq:
  assumes "wellFormed m"
  shows "postselectDensity m k v = normalizeDensity (zeroInconsistentEntries m (k mod 32) v)"
proof -
  let ?buf = "fold (\<lambda>c. fold (\<lambda>r buf.
      if ((word_of_nat c AND shiftLeftOne k) \<noteq> 0) \<noteq> v
         \<or> ((word_of_nat r AND shiftLeftOne k) \<noteq> 0) \<noteq> v
      then buf[r * width m + c := 0] else buf) [0..<height m]) [0..<width m] (rawBuffer m)"
  have len: "length (rawBuffer m) = width m * height m"
    using assms by (simp add: wellFormed_def)
  have "\<lparr>width = width m, height = height m, rawBuffer = ?buf\<rparr>
      = zeroInconsistentEntries m (k mod 32) v"
  proof (rule Matrix_eqI)
    show "wellFormed \<lparr>width = width m, height = height m, rawBuffer = ?buf\<rparr>"
      by (simp add: wellFormed_def len)
  next
    fix r c
    assume "r < height \<lparr>width = width m, height = height m, rawBuffer = ?buf\<rparr>"
      and "c < width \<lparr>width = width m, height = height m, rawBuffer = ?buf\<rparr>"
    then have r: "r < height m" and c: "c < width m" by simp_all
    have "?buf ! (r * width m + c)
        = (if bit c (k mod 32) \<noteq> v \<or> bit r (k mod 32) \<noteq> v then 0
           else rawBuffer m ! (r * width m + c))"
      using nth_fold_cols_rows [OF r c len,
          of "\<lambda>r c. ((word_of_nat c AND shiftLeftOne k) \<noteq> 0) \<noteq> v
                \<or> ((word_of_nat r AND shiftLeftOne k) \<noteq> 0) \<noteq> v" "\<lambda>r c. 0"]
      by (simp add: bit_test)
    moreover have "cell \<lparr>width = width m, height = height m, rawBuffer = ?buf\<rparr> r c
        = ?buf ! (r * width m + c)"
      by (simp add: cell_def)
    moreover have "cell m r c = rawBuffer m ! (r * width m + c)"
      by (simp add: cell_def)
    ultimately show "cell \<lparr>width = width m, height = height m, rawBuffer = ?buf\<rparr> r c
        = cell (zeroInconsistentEntries m (k mod 32) v) r c"
      using r c by auto
  qed simp_all
  then show ?thesis by (simp add: postselectDensity_def Let_def)
qed

lemma squaredNorm_zeroInconsistentAmplitudes:
  "squaredNorm (zeroInconsistentAmplitudes col k v) = columnMass col k v"
proof -
  have "squaredNorm (zeroInconsistentAmplitudes col k v)
      = (\<Sum>r<height col. if bit r k = v then (cmod (cell col r 0))\<^sup>2 else 0)"
    by (simp add: squaredNorm_def) (intro sum.cong refl, simp)
  then show ?thesis by (simp add: columnMass_def sum_if_mass)
qed

lemma diagonal_zeroInconsistentEntries:
  assumes "width m = height m"
  shows "(\<Sum>i<height m. cell (zeroInconsistentEntries m k v) i i) = diagonalMass m k v"
proof -
  have "(\<Sum>i<height m. cell (zeroInconsistentEntries m k v) i i)
      = (\<Sum>i<height m. if bit i k = v then cell m i i else 0)"
    by (intro sum.cong refl) (simp add: assms)
  then show ?thesis by (simp add: diagonalMass_def sum_if_mass)
qed

lemma postselectCol_cases:
  assumes "wellFormed col" "width col = 1" "k < 32"
  shows "postselectCol col k v =
     (if columnMass col k v = 0 then Inl NonFinite
      else Inr (timesScalar (zeroInconsistentAmplitudes col k v)
                  (1 / sqrt (columnMass col k v))))"
  using assms
  by (simp add: postselectCol_eq normalizeCol_eq squaredNorm_zeroInconsistentAmplitudes)

lemma postselectDensity_cases:
  assumes "wellFormed m" "width m = height m" "k < 32"
  shows "postselectDensity m k v =
     (if diagonalMass m k v = 0 then Inl NonFinite
      else Inr (timesScalar (zeroInconsistentEntries m k v)
                  (1 / cmod (diagonalMass m k v))))"
proof -
  have "normalizeDensity (zeroInconsistentEntries m k v) =
     (if diagonalMass m k v = 0 then Inl NonFinite
      else Inr (timesScalar (zeroInconsistentEntries m k v) (1 / cmod (diagonalMass m k v))))"
    using normalizeDensity_eq [of "zeroInconsistentEntries m k v"]
      diagonal_zeroInconsistentEntries [OF assms(2), of k v] assms(2)
    by (simp only: zeroInconsistentEntries_simps)
  then show ?thesis using assms(1,3) by (simp add: postselectDensity_eq)
qed

subsection \<open>measureQubit\<close>

lemma onNess_loop:
  assumes "m \<le> length actualBuf" "length inferredBuf = length actualBuf * length actualBuf"
  shows "fold (\<lambda>j acc.
         bindE acc (\<lambda>(actualOnNess, predictedOnNess).
           if (word_of_nat j AND shiftLeftOne k) \<noteq> 0
           then let cr = Re (actualBuf ! j);
                    ci = Im (actualBuf ! j)
                in if j * (length actualBuf + 1) < length inferredBuf
                   then Inr (actualOnNess + (cr * cr + ci * ci),
                             predictedOnNess + Re (inferredBuf ! (j * (length actualBuf + 1))))
                   else Inl NonFinite
           else Inr (actualOnNess, predictedOnNess)))
       [0..<m] (Inr (0, 0))
     = Inr (\<Sum>j<m. if bit j (k mod 32) then (cmod (actualBuf ! j))\<^sup>2 else 0,
            \<Sum>j<m. if bit j (k mod 32)
                    then Re (inferredBuf ! (j * (length actualBuf + 1))) else 0)"
  using assms(1)
proof (induction m)
  case 0
  show ?case by simp
next
  case (Suc m)
  then have m: "m < length actualBuf" by simp
  then have "m * length actualBuf + m < length actualBuf * length actualBuf"
    by (intro index_bound)
  then have inRange: "m * (length actualBuf + 1) < length inferredBuf"
    using assms(2) by (simp add: algebra_simps)
  have sq: "Re z * Re z + Im z * Im z = (cmod z)\<^sup>2" for z
    unfolding cmod_power2 by (simp add: power2_eq_square)
  from Suc m show ?case
    by (simp add: bit_test inRange sq Let_def del: One_nat_def)
qed

lemma onNess_eq:
  assumes "hasDimension this d" "k < 32"
  shows "onNess (rawBuffer (actualHiddenState this)) (rawBuffer (inferredStateDensity this)) k
     = Inr (columnMass (actualHiddenState this) k True,
            Re (diagonalMass (inferredStateDensity this) k True))"
proof -
  let ?a = "rawBuffer (actualHiddenState this)" and ?i = "rawBuffer (inferredStateDensity this)"
  from assms(1) have len: "length ?a = d" "length ?i = d * d"
    and w: "width (actualHiddenState this) = 1" "width (inferredStateDensity this) = d"
    and h: "height (actualHiddenState this) = d" "height (inferredStateDensity this) = d"
    by (simp_all add: hasDimension_def wellFormed_def)
  have k: "k mod 32 = k" using assms(2) by simp
  have "onNess ?a ?i k
     = Inr (\<Sum>j<length ?a. if bit j (k mod 32) then (cmod (?a ! j))\<^sup>2 else 0,
            \<Sum>j<length ?a. if bit j (k mod 32)
                    then Re (?i ! (j * (length ?a + 1))) else 0)"
    unfolding onNess_def by (rule onNess_loop) (simp_all add: len)
  then have "onNess ?a ?i k
     = Inr (\<Sum>j<d. if bit j k then (cmod (?a ! j))\<^sup>2 else 0,
            \<Sum>j<d. if bit j k then Re (?i ! (j * (d + 1))) else 0)"
    unfolding k len .
  moreover have "(\<Sum>j<d. if bit j k then (cmod (?a ! j))\<^sup>2 else 0)
      = columnMass (actualHiddenState this) k True"
    by (simp add: columnMass_def h sum_if_mass [symmetric] cell_def w)
  moreover have "(\<Sum>j<d. if bit j k then Re (?i ! (j * (d + 1))) else 0)
      = Re (diagonalMass (inferredStateDensity this) k True)"
  proof -
    have "Re (diagonalMass (inferredStateDensity this) k True)
        = (\<Sum>j<d. Re (if bit j k then cell (inferredStateDensity this) j j else 0))"
      by (simp add: diagonalMass_def h sum_if_mass [symmetric])
    also have "\<dots> = (\<Sum>j<d. if bit j k then Re (?i ! (j * (d + 1))) else 0)"
      by (intro sum.cong refl) (simp add: cell_def w algebra_simps)
    finally show ?thesis by simp
  qed
  ultimately show ?thesis by simp
qed

lemma measureQubit_eq:
  assumes "hasDimension this d" "k < 32"
  shows "measureQubit k sample this =
     (let p = columnMass (actualHiddenState this) k True;
          q = Re (diagonalMass (inferredStateDensity this) k True);
          b = (sample < p)
      in if columnMass (actualHiddenState this) k b = 0
            \<or> diagonalMass (inferredStateDensity this) k b = 0
         then Inl NonFinite
         else Inr (b,
           \<lparr>actualHiddenState =
              timesScalar (zeroInconsistentAmplitudes (actualHiddenState this) k b)
                (1 / sqrt (columnMass (actualHiddenState this) k b)),
            inferredStateDensity =
              timesScalar (zeroInconsistentEntries (inferredStateDensity this) k b)
                (1 / cmod (diagonalMass (inferredStateDensity this) k b)),
            operationCount = operationCount this + 1,
            expectedIgnoranceErrors = expectedIgnoranceErrors this + \<bar>q - p\<bar>\<rparr>))"
proof -
  from assms(1) have wf: "wellFormed (actualHiddenState this)"
    "width (actualHiddenState this) = 1" "wellFormed (inferredStateDensity this)"
    "width (inferredStateDensity this) = height (inferredStateDensity this)"
    by (simp_all add: hasDimension_def)
  show ?thesis
    by (simp add: measureQubit_def Let_def onNess_eq [OF assms]
        postselectCol_cases [OF wf(1,2) assms(2)] postselectDensity_cases [OF wf(3,4) assms(2)])
qed

lemma measureQubit_mod: "measureQubit k sample this = measureQubit (k mod 32) sample this"
  by (simp add: measureQubit_def onNess_def postselectCol_def postselectDensity_def
      shiftLeftOne_def)

lemma measureQubit_throws_nothing:
  assumes "hasDimension this d"
  shows "measureQubit k sample this = Inl NonFinite
       \<or> (\<exists>b this'. measureQubit k sample this = Inr (b, this'))"
proof -
  have "k mod 32 < 32" by simp
  from measureQubit_eq [OF assms this, of sample] show ?thesis
    unfolding measureQubit_mod [of k] by (simp add: Let_def)
qed

lemma nonnegativeDiagonal_iff:
  "nonnegativeDiagonal m = (\<forall>i<height m. Im (cell m i i) = 0 \<and> 0 \<le> Re (cell m i i))"
  by (auto simp: nonnegativeDiagonal_def list_all_iff)

lemma diagonalMass_nonnegative:
  assumes "nonnegativeDiagonal m"
  shows "diagonalMass m k v = complex_of_real (Re (diagonalMass m k v))"
    and "0 \<le> Re (diagonalMass m k v)"
proof -
  have d: "\<And>i. i < height m \<Longrightarrow> Im (cell m i i) = 0 \<and> 0 \<le> Re (cell m i i)"
    using assms by (simp add: nonnegativeDiagonal_iff)
  have "Im (diagonalMass m k v) = 0"
    by (simp add: diagonalMass_def d)
  then show "diagonalMass m k v = complex_of_real (Re (diagonalMass m k v))"
    by (simp add: complex_eq_iff)
  show "0 \<le> Re (diagonalMass m k v)"
    unfolding diagonalMass_def Re_sum by (intro sum_nonneg) (simp add: d)
qed

lemma unit_phase_of_nonnegative:
  assumes "nonnegativeDiagonal m" "diagonalMass m k v \<noteq> 0"
  shows "diagonalMass m k v * complex_of_real (1 / cmod (diagonalMass m k v)) = 1"
proof -
  define t where "t = Re (diagonalMass m k v)"
  have eq: "diagonalMass m k v = complex_of_real t" and nn: "0 \<le> t"
    using diagonalMass_nonnegative [OF assms(1), of k v] by (simp_all add: t_def)
  with assms(2) have "0 < t" by (cases "t = 0") simp_all
  then have "complex_of_real (t * (1 / \<bar>t\<bar>)) = 1" by simp
  then show ?thesis unfolding eq norm_of_real of_real_mult .
qed



subsection \<open>Masses of collapsed states\<close>

lemma columnMass_sum:
  "columnMass col k v = (\<Sum>j<height col. if bit j k = v then (cmod (cell col j 0))\<^sup>2 else 0)"
  by (simp add: columnMass_def sum_if_mass)

lemma diagonalMass_sum:
  "diagonalMass m k v = (\<Sum>j<height m. if bit j k = v then cell m j j else 0)"
  by (simp add: diagonalMass_def sum_if_mass)

lemma columnMass_nonneg [simp]: "0 \<le> columnMass col k v"
  by (simp add: columnMass_def sum_nonneg)

lemma columnMass_split:
  assumes "width col = 1"
  shows "columnMass col k True + columnMass col k False = squaredNorm col"
proof -
  have "columnMass col k True + columnMass col k False
      = (\<Sum>j<height col. (if bit j k then (cmod (cell col j 0))\<^sup>2 else 0)
          + (if \<not> bit j k then (cmod (cell col j 0))\<^sup>2 else 0))"
    by (simp add: columnMass_sum sum.distrib)
  also have "\<dots> = (\<Sum>j<height col. (cmod (cell col j 0))\<^sup>2)"
    by (intro sum.cong refl) simp
  finally show ?thesis by (simp add: squaredNorm_def assms)
qed

lemma columnMass_collapsed:
  "columnMass (timesScalar (zeroInconsistentAmplitudes col k b) s) k v
     = (if v = b then s\<^sup>2 * columnMass col k b else 0)"
proof -
  let ?z = "timesScalar (zeroInconsistentAmplitudes col k b) s"
  have c: "cell ?z j 0 = (if bit j k = b then cell col j 0 else 0) * complex_of_real s"
    if "j < height col" for j
    using that by (simp add: cell_timesScalar)
  have "columnMass ?z k v
      = (\<Sum>j<height col. if bit j k = v \<and> v = b then s\<^sup>2 * (cmod (cell col j 0))\<^sup>2 else 0)"
    unfolding columnMass_sum
    by (simp, intro sum.cong refl)
      (auto simp: c norm_mult power_mult_distrib mult.commute)
  also have "\<dots> = (if v = b then s\<^sup>2 * columnMass col k b else 0)"
    by (simp add: columnMass_sum sum_distrib_left if_distrib [of "\<lambda>x. s\<^sup>2 * x"] cong: if_cong)
  finally show ?thesis .
qed

lemma diagonalMass_collapsed:
  assumes "width m = height m"
  shows "diagonalMass (timesScalar (zeroInconsistentEntries m k b) s) k v
     = (if v = b then diagonalMass m k b * complex_of_real s else 0)"
proof -
  let ?z = "timesScalar (zeroInconsistentEntries m k b) s"
  have c: "cell ?z j j = (if bit j k = b then cell m j j else 0) * complex_of_real s"
    if "j < height m" for j
    using that assms by (simp add: cell_timesScalar)
  have "diagonalMass ?z k v
      = (\<Sum>j<height m. if bit j k = v \<and> v = b then cell m j j * complex_of_real s else 0)"
    unfolding diagonalMass_sum
    by (simp, intro sum.cong refl) (auto simp: c)
  also have "\<dots> = (if v = b then diagonalMass m k b * complex_of_real s else 0)"
    by (simp add: diagonalMass_sum sum_distrib_right
        if_distrib [of "\<lambda>x. x * complex_of_real s"] cong: if_cong)
  finally show ?thesis .
qed

lemma zeroInconsistentAmplitudes_collapsed:
  "zeroInconsistentAmplitudes (timesScalar (zeroInconsistentAmplitudes col k b) s) k b
     = timesScalar (zeroInconsistentAmplitudes col k b) s"
  by (rule Matrix_eqI) (simp_all add: cell_timesScalar)

lemma zeroInconsistentEntries_collapsed:
  "zeroInconsistentEntries (timesScalar (zeroInconsistentEntries m k b) s) k b
     = timesScalar (zeroInconsistentEntries m k b) s"
  by (rule Matrix_eqI) (simp_all add: cell_timesScalar)

lemma zeroInconsistentAmplitudes_none:
  assumes "wellFormed col" "width col = 1" "\<And>j. j < height col \<Longrightarrow> bit j k = v"
  shows "zeroInconsistentAmplitudes col k v = col"
  by (rule Matrix_eqI) (simp_all add: assms)

lemma zeroInconsistentEntries_none:
  assumes "wellFormed m" "width m = height m" "\<And>j. j < height m \<Longrightarrow> bit j k = v"
  shows "zeroInconsistentEntries m k v = m"
  by (rule Matrix_eqI) (simp_all add: assms)

lemma high_bit_clear:
  assumes "j < 2 ^ n" "n \<le> k"
  shows "\<not> bit (j::nat) k"
proof -
  have "(2::nat) ^ n \<le> 2 ^ k" using assms(2) by (intro power_increasing) simp_all
  with assms(1) have "j < 2 ^ k" by (rule less_le_trans)
  then show ?thesis by (simp add: bit_iff_odd)
qed

text \<open>
  Claim C10, as amended. For a simulator of dimension \<open>2^n\<close> and a qubit index \<open>k\<close> with
  \<open>n \<le> k < 31\<close>: \<open>measureQubit(k)\<close> is not rejected; for a sample of the random source (which
  is never negative) it returns \<open>false\<close>, adds 0 to the misprediction score, increments the
  operation count by 1, zeroes no entry, and renormalises: the true state becomes
  \<open>normalizeCol\<close> of itself and the inferred density matrix \<open>normalizeDensity\<close> of itself,
  that is, when the norm and the trace are not zero, the true state divided by its norm
  and the density matrix divided by the magnitude of its trace. When the norm and the
  trace are 1, both are left as they were.
\<close>

theorem measureQubit_beyond_register_is_neutral:
  assumes "hasDimension this (2 ^ n)" and "n \<le> k" and "k < 31" and "0 \<le> sample"
  shows "measureQubit k sample this
           = bindE (normalizeCol (actualHiddenState this)) (\<lambda>a.
             bindE (normalizeDensity (inferredStateDensity this)) (\<lambda>d.
             Inr (False, this\<lparr>operationCount := operationCount this + 1,
                               actualHiddenState := a, inferredStateDensity := d\<rparr>)))
       \<and> (squaredNorm (actualHiddenState this) \<noteq> 0
            \<and> (\<Sum>i<2 ^ n. cell (inferredStateDensity this) i i) \<noteq> 0 \<longrightarrow>
          measureQubit k sample this
            = Inr (False,
                   this\<lparr>operationCount := operationCount this + 1,
                        actualHiddenState :=
                          timesScalar (actualHiddenState this)
                            (1 / sqrt (squaredNorm (actualHiddenState this))),
                        inferredStateDensity :=
                          timesScalar (inferredStateDensity this)
                            (1 / cmod (\<Sum>i<2 ^ n. cell (inferredStateDensity this) i i))\<rparr>))
       \<and> (absCol (actualHiddenState this) = Inr 1
            \<and> trace (inferredStateDensity this) = Inr 1 \<longrightarrow>
          measureQubit k sample this
            = Inr (False, this\<lparr>operationCount := operationCount this + 1\<rparr>))"
proof -
  let ?\<psi> = "actualHiddenState this" and ?\<rho> = "inferredStateDensity this"
  from assms(1) have dims: "wellFormed ?\<psi>" "width ?\<psi> = 1" "height ?\<psi> = 2 ^ n"
    "wellFormed ?\<rho>" "width ?\<rho> = 2 ^ n" "height ?\<rho> = 2 ^ n"
    by (simp_all add: hasDimension_def)
  have sq: "width ?\<rho> = height ?\<rho>" by (simp add: dims)
  have k: "k < 32" using assms(3) by simp
  have clear: "bit j k = False" if "j < 2 ^ n" for j :: nat
    using high_bit_clear [OF that assms(2)] by simp
  have p: "columnMass ?\<psi> k True = 0"
    unfolding columnMass_sum by (intro sum.neutral) (simp add: dims clear)
  have q: "diagonalMass ?\<rho> k True = 0"
    unfolding diagonalMass_sum by (intro sum.neutral) (simp add: dims clear)
  have pf: "columnMass ?\<psi> k False = squaredNorm ?\<psi>"
    using columnMass_split [OF dims(2), of k] p by simp
  have "diagonalMass ?\<rho> k False = (\<Sum>j<2 ^ n. cell ?\<rho> j j)"
    unfolding diagonalMass_sum dims by (intro sum.cong refl) (simp add: clear)
  then have qf: "diagonalMass ?\<rho> k False = (\<Sum>j<height ?\<rho>. cell ?\<rho> j j)"
    by (simp add: dims)
  have keep: "zeroInconsistentAmplitudes ?\<psi> k False = ?\<psi>"
    "zeroInconsistentEntries ?\<rho> k False = ?\<rho>"
    by (rule zeroInconsistentAmplitudes_none zeroInconsistentEntries_none;
        simp add: dims clear)+
  have b: "(sample < 0) = False" using assms(4) by simp
  have general: "measureQubit k sample this
           = bindE (normalizeCol ?\<psi>) (\<lambda>a.
             bindE (normalizeDensity ?\<rho>) (\<lambda>d.
             Inr (False, this\<lparr>operationCount := operationCount this + 1,
                               actualHiddenState := a, inferredStateDensity := d\<rparr>)))"
    unfolding measureQubit_eq [OF assms(1) k] Let_def p q b pf qf keep
      normalizeCol_eq normalizeDensity_eq [OF sq]
    by (simp add: bindE_def)
  have neutral: "measureQubit k sample this
            = Inr (False, this\<lparr>operationCount := operationCount this + 1\<rparr>)"
    if "absCol ?\<psi> = Inr 1 \<and> trace ?\<rho> = Inr 1"
  proof -
    from that have "squaredNorm ?\<psi> = 1" by (simp add: absCol_eq)
    moreover from that have "(\<Sum>j<height ?\<rho>. cell ?\<rho> j j) = 1"
      by (simp add: trace_eq sq)
    ultimately show ?thesis
      unfolding general normalizeCol_eq normalizeDensity_eq [OF sq]
      by (simp add: bindE_def)
  qed
  have rescales: "measureQubit k sample this
            = Inr (False,
                   this\<lparr>operationCount := operationCount this + 1,
                        actualHiddenState :=
                          timesScalar ?\<psi> (1 / sqrt (squaredNorm ?\<psi>)),
                        inferredStateDensity :=
                          timesScalar ?\<rho> (1 / cmod (\<Sum>i<2 ^ n. cell ?\<rho> i i))\<rparr>)"
    if "squaredNorm ?\<psi> \<noteq> 0 \<and> (\<Sum>i<2 ^ n. cell ?\<rho> i i) \<noteq> 0"
    unfolding general normalizeCol_eq normalizeDensity_eq [OF sq]
    using that by (simp add: bindE_def dims)
  show ?thesis using general rescales neutral by blast
qed

lemma measureQubit_repeated:
  assumes "hasDimension this d" and "k < 32"
    and "0 \<le> sample2" and "sample2 < 1"
    and "nonnegativeDiagonal (inferredStateDensity this)"
    and "measureQubit k sample1 this = Inr (b, this1)"
  shows "measureQubit k sample2 this1
       = Inr (b, this1\<lparr>operationCount := operationCount this1 + 1\<rparr>)"
proof -
  let ?\<psi> = "actualHiddenState this" and ?\<rho> = "inferredStateDensity this"
  from assms(1) have dims: "wellFormed ?\<psi>" "width ?\<psi> = 1" "height ?\<psi> = d"
    "wellFormed ?\<rho>" "width ?\<rho> = d" "height ?\<rho> = d"
    by (simp_all add: hasDimension_def)
  have sq: "width ?\<rho> = height ?\<rho>" by (simp add: dims)
  define s where "s = 1 / sqrt (columnMass ?\<psi> k b)"
  define t where "t = 1 / cmod (diagonalMass ?\<rho> k b)"
  from assms(6) have nz: "columnMass ?\<psi> k b \<noteq> 0" "diagonalMass ?\<rho> k b \<noteq> 0"
    and \<psi>1: "actualHiddenState this1 = timesScalar (zeroInconsistentAmplitudes ?\<psi> k b) s"
    and \<rho>1: "inferredStateDensity this1 = timesScalar (zeroInconsistentEntries ?\<rho> k b) t"
    by (auto simp: measureQubit_eq [OF assms(1,2)] Let_def s_def t_def split: if_splits)
  have dim1: "hasDimension this1 d"
    by (simp add: hasDimension_def \<psi>1 \<rho>1 dims)
  have "0 < columnMass ?\<psi> k b"
    using nz(1) columnMass_nonneg [of ?\<psi> k b] by linarith
  then have unit: "s\<^sup>2 * columnMass ?\<psi> k b = 1"
    by (simp add: s_def power_divide)
  have phase: "diagonalMass ?\<rho> k b * complex_of_real t = 1"
    unfolding t_def by (rule unit_phase_of_nonnegative [OF assms(5) nz(2)])
  have p: "columnMass (actualHiddenState this1) k v = (if v = b then 1 else 0)" for v
    by (simp add: \<psi>1 columnMass_collapsed unit)
  have q: "diagonalMass (inferredStateDensity this1) k v = (if v = b then 1 else 0)" for v
    by (simp add: \<rho>1 diagonalMass_collapsed [OF sq] phase)
  have same: "(sample2 < (if b then 1 else 0)) = b"
    using assms(3,4) by simp
  have keep: "zeroInconsistentAmplitudes (actualHiddenState this1) k b = actualHiddenState this1"
    "zeroInconsistentEntries (inferredStateDensity this1) k b = inferredStateDensity this1"
    by (simp_all add: \<psi>1 \<rho>1 zeroInconsistentAmplitudes_collapsed
        zeroInconsistentEntries_collapsed)
  show ?thesis
    unfolding measureQubit_eq [OF dim1 assms(2)] Let_def p q
    using same by (simp add: keep)
qed

subsection \<open>Measuring the concrete simulator\<close>

lemma bit_one_zero [simp]: "bit (Suc 0) 0"
  by (simp add: bit_iff_odd)


lemma columnMass_ketZero [simp]:
  "columnMass ketZero 0 True = 0" "columnMass ketZero 0 False = 1"
  by (simp_all add: columnMass_sum sum_lessThan_two)

lemma diagonalMass_freshQubit [simp]:
  "diagonalMass (inferredStateDensity freshQubit) 0 True = 1 / 2"
  "diagonalMass (inferredStateDensity freshQubit) 0 False = 1 / 2"
  by (simp_all add: diagonalMass_sum sum_lessThan_two)

lemma measuredQubit_simps [simp]:
  "actualHiddenState measuredQubit = ketZero"
  "width (inferredStateDensity measuredQubit) = 2"
  "height (inferredStateDensity measuredQubit) = 2"
  "wellFormed (inferredStateDensity measuredQubit)"
  "cell (inferredStateDensity measuredQubit) 0 0 = 1"
  "cell (inferredStateDensity measuredQubit) 0 (Suc 0) = 0"
  "cell (inferredStateDensity measuredQubit) (Suc 0) 0 = 0"
  "cell (inferredStateDensity measuredQubit) (Suc 0) (Suc 0) = 0"
  "operationCount measuredQubit = 1" "expectedIgnoranceErrors measuredQubit = 1 / 2"
  by (simp_all add: measuredQubit_def wellFormed_def cell_def)

lemma measureQubit_freshQubit:
  "measureQubit 0 (1 / 2) freshQubit = Inr (False, measuredQubit)"
proof -
  have a: "timesScalar (zeroInconsistentAmplitudes ketZero 0 False) 1 = ketZero"
    by (simp, rule Matrix_eqI) (auto dest!: less_two_cases)
  have d: "timesScalar (zeroInconsistentEntries (inferredStateDensity freshQubit) 0 False) 2
      = inferredStateDensity measuredQubit"
    by (rule Matrix_eqI) (auto dest!: less_two_cases simp: cell_timesScalar)
  have "measureQubit 0 (1 / 2) freshQubit
      = Inr (False,
          \<lparr>actualHiddenState = ketZero,
           inferredStateDensity = inferredStateDensity measuredQubit,
           operationCount = 1, expectedIgnoranceErrors = 1 / 2\<rparr>)"
    using a d by (simp add: measureQubit_eq [OF hasDimension_freshQubit] Let_def)
  then show ?thesis by (simp add: measuredQubit_def)
qed


theorem measureQubit_beyond_register_is_neutral_witness:
  "hasDimension freshQubit (2 ^ 1) \<and> (1::nat) \<le> 1 \<and> (1::nat) < 31 \<and> (0::real) \<le> 1 / 2
   \<and> absCol (actualHiddenState freshQubit) = Inr 1
   \<and> trace (inferredStateDensity freshQubit) = Inr 1
   \<and> measureQubit 1 (1 / 2) freshQubit
       = Inr (False, freshQubit\<lparr>operationCount := operationCount freshQubit + 1\<rparr>)"
proof -
  have h: "hasDimension freshQubit (2 ^ 1)" using hasDimension_freshQubit by simp
  have a: "absCol (actualHiddenState freshQubit) = Inr 1" by (simp add: absCol_ketZero)
  have "absCol (actualHiddenState freshQubit) = Inr 1
      \<and> trace (inferredStateDensity freshQubit) = Inr 1 \<longrightarrow>
    measureQubit 1 (1 / 2) freshQubit
       = Inr (False, freshQubit\<lparr>operationCount := operationCount freshQubit + 1\<rparr>)"
    by (rule measureQubit_beyond_register_is_neutral [OF h, THEN conjunct2, THEN conjunct2])
      simp_all
  then show ?thesis using h a trace_freshQubit by simp
qed

text \<open>
  Claim C8, as amended. The renormalisations of the measurement collapse are not guarded.
  Post-selecting a column divides by the norm of the column with the inconsistent
  amplitudes zeroed, and the result is non-finite (entries \<open>Infinity\<close> or \<open>NaN\<close>, nothing is
  thrown) exactly when the outcome has zero mass in the column; post-selecting a density
  matrix divides by the magnitude of the trace of the zeroed matrix, and the result is
  non-finite exactly when the outcome has zero mass on the diagonal. Inside
  \<open>measureQubit\<close>, on a true state of norm 1 and with a sample in \<open>[0, 1)\<close>, the post-selection
  of the true state never divides by zero, since the sampled outcome has positive mass.
\<close>

theorem postselection_divides_by_zero_exactly_at_zero_mass:
  assumes "hasDimension this d" and "k < 32"
  shows "(postselectCol (actualHiddenState this) k v = Inl NonFinite
            \<longleftrightarrow> columnMass (actualHiddenState this) k v = 0)
       \<and> (postselectDensity (inferredStateDensity this) k v = Inl NonFinite
            \<longleftrightarrow> diagonalMass (inferredStateDensity this) k v = 0)
       \<and> (absCol (actualHiddenState this) = Inr 1 \<and> 0 \<le> sample \<and> sample < 1
            \<longrightarrow> postselectCol (actualHiddenState this) k
                  (sample < columnMass (actualHiddenState this) k True) \<noteq> Inl NonFinite)"
proof -
  let ?\<psi> = "actualHiddenState this" and ?\<rho> = "inferredStateDensity this"
  from assms(1) have dims: "wellFormed ?\<psi>" "width ?\<psi> = 1"
    "wellFormed ?\<rho>" "width ?\<rho> = height ?\<rho>"
    by (simp_all add: hasDimension_def)
  have col: "postselectCol ?\<psi> k v = Inl NonFinite \<longleftrightarrow> columnMass ?\<psi> k v = 0" for v
    by (simp add: postselectCol_cases [OF dims(1,2) assms(2)])
  have den: "postselectDensity ?\<rho> k v = Inl NonFinite \<longleftrightarrow> diagonalMass ?\<rho> k v = 0"
    by (simp add: postselectDensity_cases [OF dims(3,4) assms(2)])
  have sampled: "postselectCol ?\<psi> k (sample < columnMass ?\<psi> k True) \<noteq> Inl NonFinite"
    if "absCol ?\<psi> = Inr 1 \<and> 0 \<le> sample \<and> sample < 1"
  proof -
    from that have "squaredNorm ?\<psi> = 1" by (simp add: absCol_eq)
    then have total: "columnMass ?\<psi> k True + columnMass ?\<psi> k False = 1"
      using columnMass_split [OF dims(2), of k] by simp
    show ?thesis
    proof (cases "sample < columnMass ?\<psi> k True")
      case True
      with that have "columnMass ?\<psi> k True \<noteq> 0" by auto
      with True show ?thesis by (simp add: col)
    next
      case False
      with that total have "columnMass ?\<psi> k False \<noteq> 0" by auto
      with False show ?thesis by (simp add: col)
    qed
  qed
  show ?thesis using col den sampled by blast
qed

theorem postselection_divides_by_zero_exactly_at_zero_mass_witness:
  "hasDimension freshQubit 2 \<and> (0::nat) < 32
   \<and> columnMass (actualHiddenState freshQubit) 0 False = 1
   \<and> postselectCol (actualHiddenState freshQubit) 0 False \<noteq> Inl NonFinite
   \<and> diagonalMass (inferredStateDensity freshQubit) 0 False = 1 / 2
   \<and> postselectDensity (inferredStateDensity freshQubit) 0 False \<noteq> Inl NonFinite
   \<and> absCol (actualHiddenState freshQubit) = Inr 1 \<and> (0::real) \<le> 1 / 2 \<and> (1 / 2 :: real) < 1
   \<and> postselectCol (actualHiddenState freshQubit) 0
        (1 / 2 < columnMass (actualHiddenState freshQubit) 0 True) \<noteq> Inl NonFinite"
proof -
  have k: "(0::nat) < 32" by simp
  note inst = postselection_divides_by_zero_exactly_at_zero_mass [OF hasDimension_freshQubit k]
  have a: "absCol (actualHiddenState freshQubit) = Inr 1" by (simp add: absCol_ketZero)
  have c: "postselectCol (actualHiddenState freshQubit) 0 False \<noteq> Inl NonFinite"
    using inst [of False, THEN conjunct1] by simp
  have d: "postselectDensity (inferredStateDensity freshQubit) 0 False \<noteq> Inl NonFinite"
    using inst [of False, THEN conjunct2, THEN conjunct1] by simp
  have s: "postselectCol (actualHiddenState freshQubit) 0
        (1 / 2 < columnMass (actualHiddenState freshQubit) 0 True) \<noteq> Inl NonFinite"
    using inst [of _ "1 / 2", THEN conjunct2, THEN conjunct2] a by simp
  show ?thesis using hasDimension_freshQubit a c d s by simp
qed

text \<open>
  Claim C8 as stated fails on the code: post-selecting the column \<open>[1, 0]\<close> onto the outcome
  \<open>true\<close> of qubit 0 zeroes its only non-zero amplitude and then divides by the norm 0 of
  what is left; no guard intervenes.
\<close>

theorem postselectCol_zero_mass_counterexample:
  "postselectCol ketZero 0 True = Inl NonFinite
   \<and> absCol (zeroInconsistentAmplitudes ketZero 0 True) = Inr 0"
proof -
  have "postselectCol ketZero 0 True = Inl NonFinite"
    by (simp add: postselectCol_cases)
  moreover have "absCol (zeroInconsistentAmplitudes ketZero 0 True) = Inr 0"
    by (simp add: absCol_eq squaredNorm_zeroInconsistentAmplitudes)
  ultimately show ?thesis by simp
qed

section \<open>The displayed qubit distance\<close>

subsection \<open>toFixed and qubitTraceDistance\<close>

lemma digit_char: "d < 10 \<Longrightarrow> of_char (''0123456789'' ! d) = 48 + d"
proof -
  assume "d < 10"
  then have "d \<in> {0, 1, 2, 3, 4, 5, 6, 7, 8, 9}" by auto
  then show ?thesis by (elim insertE emptyE) simp_all
qed

lemma digitsValue_append:
  "digitsValue (s @ [c]) = 10 * digitsValue s + (of_char c - 48)"
  by (simp add: digitsValue_def)

lemma digitsValue_decimalDigits: "digitsValue (decimalDigits n) = n"
proof (induction n rule: decimalDigits.induct)
  case (1 n)
  show ?case
  proof (cases "n < 10")
    case True
    then show ?thesis
      using digit_char [of n] by (subst decimalDigits.simps) (simp add: digitsValue_def)
  next
    case False
    then have "digitsValue (decimalDigits (n div 10)) = n div 10" by (rule "1.IH")
    then show ?thesis
      using False digit_char [of "n mod 10"]
      by (subst decimalDigits.simps) (simp add: digitsValue_append)
  qed
qed

lemma digitsValue_leading_zeros:
  "digitsValue (replicate j (CHR ''0'') @ s) = digitsValue s"
proof -
  have "foldl (\<lambda>v c. 10 * v + (of_char c - 48)) 0 (replicate j (CHR ''0'')) = (0::nat)"
    by (induction j) simp_all
  then show ?thesis by (simp add: digitsValue_def)
qed

lemma decimalDigits_digits: "set (decimalDigits n) \<subseteq> set ''0123456789''"
proof (induction n rule: decimalDigits.induct)
  case (1 n)
  have digit: "''0123456789'' ! d \<in> set ''0123456789''" if "d < 10" for d
    using that by (intro nth_mem) simp
  show ?case
  proof (cases "n < 10")
    case True
    then show ?thesis
      using digit [of n] by (subst decimalDigits.simps) simp
  next
    case False
    then have "set (decimalDigits (n div 10)) \<subseteq> set ''0123456789''" by (rule "1.IH")
    then show ?thesis
      using False digit [of "n mod 10"] by (subst decimalDigits.simps) simp
  qed
qed

lemma fixedDigits_shape:
  assumes "0 < f"
  shows "\<exists>a b. fixedDigits f n = a @ ''.'' @ b \<and> a \<noteq> [] \<and> length b = f
           \<and> set (a @ b) \<subseteq> set ''0123456789'' \<and> digitsValue (a @ b) = n"
proof -
  define m where "m = (if length (decimalDigits n) \<le> f
      then replicate (f + 1 - length (decimalDigits n)) (CHR ''0'') @ decimalDigits n
      else decimalDigits n)"
  have len: "f < length m" by (simp add: m_def)
  have val: "digitsValue m = n"
    by (simp add: m_def digitsValue_leading_zeros digitsValue_decimalDigits)
  have "fixedDigits f n = take (length m - f) m @ ''.'' @ drop (length m - f) m"
    using assms by (simp add: fixedDigits_def m_def Let_def)
  moreover have "take (length m - f) m \<noteq> []" using len by auto
  moreover have "length (drop (length m - f) m) = f" using len by simp
  moreover have "digitsValue (take (length m - f) m @ drop (length m - f) m) = n"
    using val by simp
  moreover have "set (take (length m - f) m @ drop (length m - f) m) \<subseteq> set ''0123456789''"
    using decimalDigits_digits [of n] by (auto simp: m_def)
  ultimately show ?thesis by blast
qed

lemma nearestScaled_close:
  assumes "0 \<le> x"
  shows "\<bar>real (nearestScaled f x) / 10 ^ f - x\<bar> \<le> 1 / (2 * 10 ^ f)"
proof -
  define y where "y = x * 10 ^ f"
  have y: "0 \<le> y" using assms by (simp add: y_def)
  then have "0 \<le> \<lfloor>y + 1 / 2\<rfloor>" by simp
  then have n: "real (nearestScaled f x) = of_int \<lfloor>y + 1 / 2\<rfloor>"
    by (simp add: nearestScaled_def y_def)
  have "of_int \<lfloor>y + 1 / 2\<rfloor> \<le> y + 1 / 2" "y + 1 / 2 < of_int \<lfloor>y + 1 / 2\<rfloor> + 1"
    by linarith+
  then have "\<bar>real (nearestScaled f x) - y\<bar> \<le> 1 / 2" unfolding n by linarith
  then have "\<bar>real (nearestScaled f x) - y\<bar> / 10 ^ f \<le> (1 / 2) / 10 ^ f"
    by (intro divide_right_mono) simp_all
  moreover have "real (nearestScaled f x) / 10 ^ f - x = (real (nearestScaled f x) - y) / 10 ^ f"
    by (simp add: y_def diff_divide_distrib)
  then have "\<bar>real (nearestScaled f x) / 10 ^ f - x\<bar>
      = \<bar>real (nearestScaled f x) - y\<bar> / 10 ^ f"
    by (simp only: abs_divide) simp
  ultimately show ?thesis by simp
qed

lemma qubitTraceDistance_eq:
  "qubitTraceDistance d1 d2 = toFixed 4 (blochDistance d1 d2 / 2)"
  by (simp add: qubitTraceDistance_def blochDistance_def power2_eq_square split: prod.splits)

lemma blochDistance_nonneg [simp]: "0 \<le> blochDistance d1 d2"
  by (simp add: blochDistance_def split: prod.splits)

text \<open>
  Claim C9, as amended. For 2x2 density matrices \<open>d1\<close> and \<open>d2\<close> (whose Bloch vectors are less
  than \<open>2 * 10^21\<close> apart): \<open>qubitTraceDistance(d1, d2)\<close> is a string, the decimal numeral with
  exactly four digits after the point of a multiple of \<open>0.0001\<close> that differs from half the
  Euclidean distance between the two Bloch vectors by at most \<open>0.00005\<close>.
\<close>

theorem qubitTraceDistance_is_rounded_numeral:
  assumes "blochDistance d1 d2 / 2 < 10 ^ 21"
  shows "\<exists>a b. qubitTraceDistance d1 d2 = Some (a @ ''.'' @ b)
           \<and> a \<noteq> [] \<and> length b = 4 \<and> set (a @ b) \<subseteq> set ''0123456789''
           \<and> \<bar>real (digitsValue (a @ b)) / 10 ^ 4 - blochDistance d1 d2 / 2\<bar> \<le> 1 / 20000"
proof -
  define x where "x = blochDistance d1 d2 / 2"
  have x: "0 \<le> x" "x < 10 ^ 21" using assms by (simp_all add: x_def)
  then have "\<not> 10 ^ 21 \<le> \<bar>x\<bar>" by simp
  then have res: "qubitTraceDistance d1 d2 = Some (fixedDigits 4 (nearestScaled 4 x))"
    using x(1) unfolding qubitTraceDistance_eq x_def [symmetric] toFixed_def by simp
  obtain a b where ab: "fixedDigits 4 (nearestScaled 4 x) = a @ ''.'' @ b" "a \<noteq> []"
    "length b = 4" "set (a @ b) \<subseteq> set ''0123456789''"
    "digitsValue (a @ b) = nearestScaled 4 x"
    using fixedDigits_shape [of 4 "nearestScaled 4 x"] by auto
  have close: "\<bar>real (nearestScaled 4 x) / 10 ^ 4 - x\<bar> \<le> 1 / 20000"
    using nearestScaled_close [OF x(1), of 4] by simp
  have "qubitTraceDistance d1 d2 = Some (a @ ''.'' @ b)
           \<and> a \<noteq> [] \<and> length b = 4 \<and> set (a @ b) \<subseteq> set ''0123456789''
           \<and> \<bar>real (digitsValue (a @ b)) / 10 ^ 4 - blochDistance d1 d2 / 2\<bar> \<le> 1 / 20000"
    using res ab close unfolding x_def by (simp only:) simp
  then show ?thesis by blast
qed

lemma bloch_mixedQubit: "qubitDensityMatrixToBlochVector mixedQubit = (0, 0, 0)"
  by (simp add: qubitDensityMatrixToBlochVector_def mixedQubit_def cell_def)

lemma bloch_tiltedQubit: "qubitDensityMatrixToBlochVector tiltedQubit = (0, 0, 1 / 50000)"
  by (simp add: qubitDensityMatrixToBlochVector_def tiltedQubit_def cell_def)

lemma blochDistance_mixed_tilted: "blochDistance mixedQubit tiltedQubit = 1 / 50000"
  by (simp add: blochDistance_def bloch_mixedQubit bloch_tiltedQubit)

lemma blochDistance_mixed_mixed: "blochDistance mixedQubit mixedQubit = 0"
  by (simp add: blochDistance_def bloch_mixedQubit)

lemma fixedDigits_four_zero: "fixedDigits 4 0 = ''0.0000''"
  by (simp add: fixedDigits_def decimalDigits.simps [of 0] Let_def numeral_eq_Suc)

lemma toFixed_small: "toFixed 4 (1 / 100000) = Some ''0.0000''"
  by (simp add: toFixed_def nearestScaled_def fixedDigits_four_zero)

lemma toFixed_zero: "toFixed 4 0 = Some ''0.0000''"
  by (simp add: toFixed_def nearestScaled_def fixedDigits_four_zero)

text \<open>
  Claim C9 as stated fails on the code, which ends in \<open>.toFixed(4)\<close>: the result is a string
  of four decimals. The maximally mixed qubit compared with a matrix whose Bloch vector is
  \<open>2 / 100000\<close> away gives \<open>"0.0000"\<close>, where half the distance is \<open>1 / 100000\<close>; it is the very
  result of comparing the maximally mixed qubit with itself, where half the distance is 0.
\<close>

theorem qubitTraceDistance_rounds_counterexample:
  "qubitTraceDistance mixedQubit tiltedQubit = Some ''0.0000''
   \<and> blochDistance mixedQubit tiltedQubit / 2 = 1 / 100000
   \<and> qubitTraceDistance mixedQubit mixedQubit = Some ''0.0000''
   \<and> blochDistance mixedQubit mixedQubit / 2 = 0"
  by (simp add: qubitTraceDistance_eq blochDistance_mixed_tilted blochDistance_mixed_mixed
      toFixed_small toFixed_zero)

theorem qubitTraceDistance_is_rounded_numeral_witness:
  "blochDistance mixedQubit tiltedQubit / 2 < 10 ^ 21
   \<and> (\<exists>a b. qubitTraceDistance mixedQubit tiltedQubit = Some (a @ ''.'' @ b)
           \<and> a \<noteq> [] \<and> length b = 4 \<and> set (a @ b) \<subseteq> set ''0123456789''
           \<and> \<bar>real (digitsValue (a @ b)) / 10 ^ 4 - blochDistance mixedQubit tiltedQubit / 2\<bar>
               \<le> 1 / 20000)"
proof -
  have h: "blochDistance mixedQubit tiltedQubit / 2 < 10 ^ 21"
    by (simp add: blochDistance_mixed_tilted)
  show ?thesis
    using h qubitTraceDistance_is_rounded_numeral [OF h] by blast
qed

section \<open>Reachable simulators\<close>

subsection \<open>Quadratic forms under the operations\<close>

lemma expectation_timesScalar:
  assumes "wellFormed m"
  shows "expectation (timesScalar m s) x = expectation m x * complex_of_real s"
proof -
  have "expectation (timesScalar m s) x
      = (\<Sum>r<height m. \<Sum>c<width m. (cnj (x r) * cell m r c * x c) * complex_of_real s)"
    unfolding expectation_def timesScalar_dims
    by (intro sum.cong refl) (simp add: cell_timesScalar assms mult_ac)
  then show ?thesis by (simp add: expectation_def sum_distrib_right)
qed

lemma overlap_timesScalar:
  assumes "wellFormed col" "width col = 1"
  shows "overlap (timesScalar col s) x = overlap col x * complex_of_real s"
proof -
  have "overlap (timesScalar col s) x
      = (\<Sum>r<height col. (cnj (cell col r 0) * x r) * complex_of_real s)"
    unfolding overlap_def timesScalar_dims
    by (intro sum.cong refl) (simp add: cell_timesScalar assms mult_ac)
  then show ?thesis by (simp add: overlap_def sum_distrib_right)
qed

lemma expectation_zeroInconsistentEntries:
  "expectation (zeroInconsistentEntries m k b) x
     = expectation m (\<lambda>i. if bit i k = b then x i else 0)"
  unfolding expectation_def zeroInconsistentEntries_simps
  by (intro sum.cong refl) simp

lemma overlap_zeroInconsistentAmplitudes:
  "overlap (zeroInconsistentAmplitudes col k b) x
     = overlap col (\<lambda>i. if bit i k = b then x i else 0)"
  unfolding overlap_def zeroInconsistentAmplitudes_simps
  by (intro sum.cong refl) simp

lemma expectation_conjugated:
  fixes u :: "nat \<Rightarrow> nat \<Rightarrow> complex" and \<rho> :: "nat \<Rightarrow> nat \<Rightarrow> complex"
  shows "(\<Sum>r<d. \<Sum>c<d. cnj (x r) * (\<Sum>k<d. (\<Sum>j<d. u r j * \<rho> j k) * cnj (u c k)) * x c)
       = (\<Sum>j<d. \<Sum>k<d. cnj (\<Sum>r<d. cnj (u r j) * x r) * \<rho> j k * (\<Sum>c<d. cnj (u c k) * x c))"
proof -
  have "(\<Sum>r<d. \<Sum>c<d. cnj (x r) * (\<Sum>k<d. (\<Sum>j<d. u r j * \<rho> j k) * cnj (u c k)) * x c)
      = (\<Sum>r<d. \<Sum>c<d. \<Sum>k<d. \<Sum>j<d. cnj (x r) * u r j * \<rho> j k * cnj (u c k) * x c)"
    by (intro sum.cong refl) (simp add: sum_distrib_left sum_distrib_right mult_ac)
  also have "\<dots> = (\<Sum>r<d. \<Sum>k<d. \<Sum>c<d. \<Sum>j<d. cnj (x r) * u r j * \<rho> j k * cnj (u c k) * x c)"
    by (rule sum.cong [OF refl]) (rule sum.swap)
  also have "\<dots> = (\<Sum>k<d. \<Sum>r<d. \<Sum>c<d. \<Sum>j<d. cnj (x r) * u r j * \<rho> j k * cnj (u c k) * x c)"
    by (rule sum.swap)
  also have "\<dots> = (\<Sum>k<d. \<Sum>r<d. \<Sum>j<d. \<Sum>c<d. cnj (x r) * u r j * \<rho> j k * cnj (u c k) * x c)"
    by (rule sum.cong [OF refl], rule sum.cong [OF refl], rule sum.swap)
  also have "\<dots> = (\<Sum>k<d. \<Sum>j<d. \<Sum>r<d. \<Sum>c<d. cnj (x r) * u r j * \<rho> j k * cnj (u c k) * x c)"
    by (rule sum.cong [OF refl]) (rule sum.swap)
  also have "\<dots> = (\<Sum>j<d. \<Sum>k<d. \<Sum>r<d. \<Sum>c<d. cnj (x r) * u r j * \<rho> j k * cnj (u c k) * x c)"
    by (rule sum.swap)
  also have "\<dots> = (\<Sum>j<d. \<Sum>k<d.
        cnj (\<Sum>r<d. cnj (u r j) * x r) * \<rho> j k * (\<Sum>c<d. cnj (u c k) * x c))"
  proof (intro sum.cong refl)
    fix j k
    have A: "cnj (\<Sum>r<d. cnj (u r j) * x r) = (\<Sum>r<d. u r j * cnj (x r))"
      by simp
    have B: "\<rho> j k * (\<Sum>c<d. cnj (u c k) * x c) = (\<Sum>c<d. \<rho> j k * (cnj (u c k) * x c))"
      by (rule sum_distrib_left)
    have "cnj (\<Sum>r<d. cnj (u r j) * x r) * \<rho> j k * (\<Sum>c<d. cnj (u c k) * x c)
        = (\<Sum>r<d. u r j * cnj (x r)) * (\<Sum>c<d. \<rho> j k * (cnj (u c k) * x c))"
      unfolding A mult.assoc B ..
    also have "\<dots> = (\<Sum>r<d. \<Sum>c<d. (u r j * cnj (x r)) * (\<rho> j k * (cnj (u c k) * x c)))"
      by (rule sum_product)
    also have "\<dots> = (\<Sum>r<d. \<Sum>c<d. cnj (x r) * u r j * \<rho> j k * cnj (u c k) * x c)"
      by (intro sum.cong refl) (simp add: mult_ac)
    finally show "(\<Sum>r<d. \<Sum>c<d. cnj (x r) * u r j * \<rho> j k * cnj (u c k) * x c)
        = cnj (\<Sum>r<d. cnj (u r j) * x r) * \<rho> j k * (\<Sum>c<d. cnj (u c k) * x c)"
      by simp
  qed
  finally show ?thesis .
qed

lemma overlap_conjugated:
  fixes u :: "nat \<Rightarrow> nat \<Rightarrow> complex" and \<psi> :: "nat \<Rightarrow> complex"
  shows "(\<Sum>r<d. cnj (\<Sum>k<d. u r k * \<psi> k) * x r)
       = (\<Sum>k<d. cnj (\<psi> k) * (\<Sum>r<d. cnj (u r k) * x r))"
proof -
  have "(\<Sum>r<d. cnj (\<Sum>k<d. u r k * \<psi> k) * x r)
      = (\<Sum>r<d. \<Sum>k<d. cnj (\<psi> k) * (cnj (u r k) * x r))"
  proof (rule sum.cong [OF refl])
    fix r
    have "cnj (\<Sum>k<d. u r k * \<psi> k) * x r = (\<Sum>k<d. cnj (u r k) * cnj (\<psi> k)) * x r"
      by simp
    also have "\<dots> = (\<Sum>k<d. (cnj (u r k) * cnj (\<psi> k)) * x r)"
      by (rule sum_distrib_right)
    also have "\<dots> = (\<Sum>k<d. cnj (\<psi> k) * (cnj (u r k) * x r))"
      by (intro sum.cong refl) (simp add: mult_ac)
    finally show "cnj (\<Sum>k<d. u r k * \<psi> k) * x r
        = (\<Sum>k<d. cnj (\<psi> k) * (cnj (u r k) * x r))" .
  qed
  also have "\<dots> = (\<Sum>k<d. \<Sum>r<d. cnj (\<psi> k) * (cnj (u r k) * x r))"
    by (rule sum.swap)
  also have "\<dots> = (\<Sum>k<d. cnj (\<psi> k) * (\<Sum>r<d. cnj (u r k) * x r))"
    by (simp add: sum_distrib_left)
  finally show ?thesis .
qed

subsection \<open>A density matrix that covers the true state\<close>

lemma coversI:
  assumes "0 < e"
    and "\<And>x. Im (expectation m x) = 0"
    and "\<And>x. e * (cmod (overlap col x))\<^sup>2 \<le> Re (expectation m x)"
  shows "covers m col"
  unfolding covers_def using assms by blast

lemma coversD:
  assumes "covers m col"
  shows "\<exists>e>0. (\<forall>x. Im (expectation m x) = 0)
           \<and> (\<forall>x. e * (cmod (overlap col x))\<^sup>2 \<le> Re (expectation m x))"
  using assms unfolding covers_def by blast

lemma expectation_identity:
  "expectation (identity d) x = complex_of_real (\<Sum>r<d. (cmod (x r))\<^sup>2)"
proof -
  have "expectation (identity d) x = (\<Sum>r<d. \<Sum>c<d. (cnj (x r) * x c) * (if c = r then 1 else 0))"
    unfolding expectation_def identity_dims
    by (intro sum.cong refl) (auto simp: mult_ac)
  also have "\<dots> = (\<Sum>r<d. cnj (x r) * x r)"
    by (intro sum.cong refl) (simp add: sum_delta_lessThan)
  also have "\<dots> = (\<Sum>r<d. complex_of_real ((cmod (x r))\<^sup>2))"
  proof (intro sum.cong refl)
    fix r
    show "cnj (x r) * x r = complex_of_real ((cmod (x r))\<^sup>2)"
      unfolding complex_norm_square by (simp add: mult.commute)
  qed
  finally show ?thesis by simp
qed

lemma overlap_bound:
  assumes "height col = d"
  shows "(cmod (overlap col x))\<^sup>2
       \<le> (\<Sum>r<d. cmod (cell col r 0))\<^sup>2 * (\<Sum>r<d. (cmod (x r))\<^sup>2)"
proof -
  define N where "N = (\<Sum>r<d. (cmod (x r))\<^sup>2)"
  define B where "B = (\<Sum>r<d. cmod (cell col r 0))"
  have N: "0 \<le> N" by (simp add: N_def sum_nonneg)
  have B: "0 \<le> B" by (simp add: B_def sum_nonneg)
  have each: "cmod (x r) \<le> sqrt N" if "r < d" for r
  proof -
    have "(cmod (x r))\<^sup>2 \<le> N"
      unfolding N_def using that
      by (intro member_le_sum [of r "{..<d}" "\<lambda>r. (cmod (x r))\<^sup>2"]) simp_all
    then show ?thesis by (rule real_le_rsqrt)
  qed
  have "cmod (overlap col x) \<le> (\<Sum>r<d. cmod (cnj (cell col r 0) * x r))"
    unfolding overlap_def assms by (rule norm_sum)
  also have "\<dots> \<le> (\<Sum>r<d. cmod (cell col r 0) * sqrt N)"
    by (intro sum_mono) (simp add: norm_mult each mult_left_mono)
  also have "\<dots> = B * sqrt N" by (simp add: B_def sum_distrib_right)
  finally have "cmod (overlap col x) \<le> B * sqrt N" .
  then have "(cmod (overlap col x))\<^sup>2 \<le> (B * sqrt N)\<^sup>2"
    by (intro power_mono) simp_all
  also have "\<dots> = B\<^sup>2 * N" using N by (simp add: power_mult_distrib)
  finally show ?thesis by (simp add: B_def N_def)
qed

lemma covers_maximally_mixed:
  assumes "0 < d" "height col = d"
  shows "covers (timesScalar (identity d) (1 / real d)) col"
proof -
  define B where "B = (\<Sum>r<d. cmod (cell col r 0))"
  define e where "e = 1 / (real d * (B\<^sup>2 + 1))"
  have pos: "0 < real d * (B\<^sup>2 + 1)"
    using assms(1) by (intro mult_pos_pos add_nonneg_pos) simp_all
  have ex: "expectation (timesScalar (identity d) (1 / real d)) x
      = complex_of_real ((\<Sum>r<d. (cmod (x r))\<^sup>2) / real d)" for x
    by (simp add: expectation_timesScalar expectation_identity)
  show ?thesis
  proof (rule coversI [of e])
    show "0 < e" using pos by (simp add: e_def)
  next
    fix x
    show "Im (expectation (timesScalar (identity d) (1 / real d)) x) = 0"
      unfolding ex by simp
  next
    fix x
    define N where "N = (\<Sum>r<d. (cmod (x r))\<^sup>2)"
    have N: "0 \<le> N" by (simp add: N_def sum_nonneg)
    have "(cmod (overlap col x))\<^sup>2 \<le> B\<^sup>2 * N"
      unfolding B_def N_def by (rule overlap_bound [OF assms(2)])
    then have "e * (cmod (overlap col x))\<^sup>2 \<le> e * (B\<^sup>2 * N)"
      using pos by (intro mult_left_mono) (simp_all add: e_def)
    also have "\<dots> = (B\<^sup>2 / (B\<^sup>2 + 1)) * (N / real d)"
      by (simp add: e_def)
    also have "\<dots> \<le> 1 * (N / real d)"
    proof (intro mult_right_mono)
      have "0 < B\<^sup>2 + 1" by (intro add_nonneg_pos) simp_all
      then show "B\<^sup>2 / (B\<^sup>2 + 1) \<le> 1" by (simp add: pos_divide_le_eq)
      show "0 \<le> N / real d" using N by simp
    qed
    finally show "e * (cmod (overlap col x))\<^sup>2
        \<le> Re (expectation (timesScalar (identity d) (1 / real d)) x)"
      unfolding ex N_def by simp
  qed
qed

lemma covers_applied:
  assumes "covers m col" "width m = d" "height m = d" "height col = d"
    "width u = d" "height u = d"
  shows "covers
     (generate d d (\<lambda>r c. \<Sum>k<d.
        cell (generate d d (\<lambda>r c. \<Sum>j<d. cell u r j * cell m j c)) r k * cell (adjoint u) k c))
     (generate 1 d (\<lambda>r c. \<Sum>k<d. cell u r k * cell col k c))"
proof -
  let ?m' = "generate d d (\<lambda>r c. \<Sum>k<d.
        cell (generate d d (\<lambda>r c. \<Sum>j<d. cell u r j * cell m j c)) r k * cell (adjoint u) k c)"
  let ?col' = "generate 1 d (\<lambda>r c. \<Sum>k<d. cell u r k * cell col k c)"
  let ?y = "\<lambda>x k. \<Sum>r<d. cnj (cell u r k) * x r"
  have ex: "expectation ?m' x = expectation m (?y x)" for x
  proof -
    have "expectation ?m' x
        = (\<Sum>r<d. \<Sum>c<d. cnj (x r)
            * (\<Sum>k<d. (\<Sum>j<d. cell u r j * cell m j k) * cnj (cell u c k)) * x c)"
      unfolding expectation_def by (simp add: assms(5,6))
    also have "\<dots> = expectation m (?y x)"
      unfolding expectation_conjugated expectation_def assms(2,3) ..
    finally show ?thesis .
  qed
  have ov: "overlap ?col' x = overlap col (?y x)" for x
  proof -
    have "overlap ?col' x = (\<Sum>r<d. cnj (\<Sum>k<d. cell u r k * cell col k 0) * x r)"
      unfolding overlap_def by simp
    also have "\<dots> = overlap col (?y x)"
      unfolding overlap_conjugated overlap_def assms(4) ..
    finally show ?thesis .
  qed
  from coversD [OF assms(1)] obtain e where e: "0 < e" "\<And>x. Im (expectation m x) = 0"
    "\<And>x. e * (cmod (overlap col x))\<^sup>2 \<le> Re (expectation m x)"
    by blast
  show ?thesis
    by (rule coversI [OF e(1)]) (unfold ex ov, rule e(2), rule e(3))
qed

lemma covers_collapsed:
  assumes "covers m col" "wellFormed m" "wellFormed col" "width col = 1"
    and "0 < s" "0 < t"
  shows "covers (timesScalar (zeroInconsistentEntries m k b) t)
                (timesScalar (zeroInconsistentAmplitudes col k b) s)"
proof -
  let ?P = "\<lambda>x i. if bit i k = b then x i else (0::complex)"
  have ex: "expectation (timesScalar (zeroInconsistentEntries m k b) t) x
      = expectation m (?P x) * complex_of_real t" for x
    by (simp add: expectation_timesScalar expectation_zeroInconsistentEntries)
  have ov: "overlap (timesScalar (zeroInconsistentAmplitudes col k b) s) x
      = overlap col (?P x) * complex_of_real s" for x
    by (simp add: overlap_timesScalar overlap_zeroInconsistentAmplitudes)
  from coversD [OF assms(1)] obtain e where e: "0 < e" "\<And>x. Im (expectation m x) = 0"
    "\<And>x. e * (cmod (overlap col x))\<^sup>2 \<le> Re (expectation m x)"
    by blast
  show ?thesis
  proof (rule coversI [of "e * t / s\<^sup>2"])
    show "0 < e * t / s\<^sup>2" using e(1) assms(5,6) by simp
  next
    fix x
    show "Im (expectation (timesScalar (zeroInconsistentEntries m k b) t) x) = 0"
      by (simp add: ex e(2))
  next
    fix x
    have "e * t / s\<^sup>2 * (cmod (overlap (timesScalar (zeroInconsistentAmplitudes col k b) s) x))\<^sup>2
        = (e * (cmod (overlap col (?P x)))\<^sup>2) * t"
      using assms(5) by (simp add: ov norm_mult power_mult_distrib)
    also have "\<dots> \<le> Re (expectation m (?P x)) * t"
      using assms(6) by (intro mult_right_mono e(3)) simp
    finally show "e * t / s\<^sup>2
          * (cmod (overlap (timesScalar (zeroInconsistentAmplitudes col k b) s) x))\<^sup>2
        \<le> Re (expectation (timesScalar (zeroInconsistentEntries m k b) t) x)"
      by (simp add: ex)
  qed
qed

lemma expectation_basis:
  assumes "i < height m" "i < width m"
  shows "expectation m (\<lambda>j. if j = i then 1 else 0) = cell m i i"
proof -
  have "expectation m (\<lambda>j. if j = i then 1 else 0)
      = (\<Sum>r<height m. (if r = i then 1 else 0)
          * (\<Sum>c<width m. cell m r c * (if c = i then 1 else 0)))"
    unfolding expectation_def
    by (intro sum.cong refl) (auto simp: sum_distrib_left mult.assoc intro!: sum.cong)
  also have "\<dots> = (\<Sum>r<height m. (if r = i then 1 else 0) * cell m r i)"
    by (simp add: sum_delta_lessThan assms(2))
  also have "\<dots> = (\<Sum>r<height m. cell m r i * (if r = i then 1 else 0))"
    by (intro sum.cong refl) simp
  also have "\<dots> = cell m i i" by (rule sum_delta_lessThan [OF assms(1)])
  finally show ?thesis .
qed

lemma overlap_basis:
  assumes "i < height col"
  shows "overlap col (\<lambda>j. if j = i then 1 else 0) = cnj (cell col i 0)"
  unfolding overlap_def using sum_delta_lessThan [OF assms, of "\<lambda>r. cnj (cell col r 0)"] by simp

lemma covers_diagonal:
  assumes "covers m col" "width m = d" "height m = d" "height col = d"
  shows "\<exists>e>0. \<forall>i<d. Im (cell m i i) = 0 \<and> e * (cmod (cell col i 0))\<^sup>2 \<le> Re (cell m i i)"
proof -
  from coversD [OF assms(1)] obtain e where e: "0 < e" "\<And>x. Im (expectation m x) = 0"
    "\<And>x. e * (cmod (overlap col x))\<^sup>2 \<le> Re (expectation m x)"
    by blast
  have "Im (cell m i i) = 0 \<and> e * (cmod (cell col i 0))\<^sup>2 \<le> Re (cell m i i)" if "i < d" for i
    using e(2) [of "\<lambda>j. if j = i then 1 else 0"] e(3) [of "\<lambda>j. if j = i then 1 else 0"] that
    by (simp add: expectation_basis overlap_basis assms(2,3,4))
  with e(1) show ?thesis by blast
qed

lemma covers_nonnegativeDiagonal:
  assumes "covers m col" "width m = d" "height m = d" "height col = d"
  shows "nonnegativeDiagonal m"
proof -
  obtain e where e: "0 < e"
    "\<And>i. i < d \<Longrightarrow> Im (cell m i i) = 0 \<and> e * (cmod (cell col i 0))\<^sup>2 \<le> Re (cell m i i)"
    using covers_diagonal [OF assms(1-4)] by blast
  have "0 \<le> Re (cell m i i)" if "i < d" for i
  proof -
    have "0 \<le> e * (cmod (cell col i 0))\<^sup>2" using e(1) by simp
    also have "\<dots> \<le> Re (cell m i i)" using e(2) [OF that] by simp
    finally show ?thesis .
  qed
  then show ?thesis using e(2) by (simp add: nonnegativeDiagonal_iff assms(3))
qed

lemma covers_mass:
  assumes "covers m col" "width m = d" "height m = d" "height col = d"
    and "columnMass col k b \<noteq> 0"
  shows "diagonalMass m k b \<noteq> 0"
proof -
  obtain e where e: "0 < e"
    "\<And>i. i < d \<Longrightarrow> Im (cell m i i) = 0 \<and> e * (cmod (cell col i 0))\<^sup>2 \<le> Re (cell m i i)"
    using covers_diagonal [OF assms(1-4)] by blast
  have "0 < columnMass col k b"
    using assms(5) columnMass_nonneg [of col k b] by linarith
  then have "0 < e * columnMass col k b" using e(1) by simp
  also have "e * columnMass col k b
      = (\<Sum>j\<in>{j. j < d \<and> bit j k = b}. e * (cmod (cell col j 0))\<^sup>2)"
    by (simp add: columnMass_def assms(4) sum_distrib_left)
  also have "\<dots> \<le> (\<Sum>j\<in>{j. j < d \<and> bit j k = b}. Re (cell m j j))"
    by (intro sum_mono) (simp add: e(2))
  also have "\<dots> = Re (diagonalMass m k b)"
    by (simp add: diagonalMass_def assms(3))
  finally show ?thesis by auto
qed

subsection \<open>What every reachable simulator satisfies\<close>

lemma reachable_invariant:
  assumes "reachable this"
  shows "\<exists>n. hasDimension this (2 ^ n)
           \<and> covers (inferredStateDensity this) (actualHiddenState this)"
  using assms
proof (induction rule: reachable.induct)
  case (constructed v this)
  from constructed(2) obtain n where n: "height v = 2 ^ n" and w: "width v = 1"
    and nz: "squaredNorm v \<noteq> 0"
    and eq: "this = \<lparr>actualHiddenState = timesScalar v (1 / sqrt (squaredNorm v)),
               inferredStateDensity = timesScalar (identity (height v)) (1 / real (height v)),
               operationCount = 0, expectedIgnoranceErrors = 0\<rparr>"
    by (auto simp: newEveQuantumComputer_eq split: if_splits)
  have "hasDimension this (2 ^ n)"
    using constructed(1) n w by (simp add: eq hasDimension_def)
  moreover have "covers (timesScalar (identity (height v)) (1 / real (height v)))
      (timesScalar v (1 / sqrt (squaredNorm v)))"
    by (rule covers_maximally_mixed) (simp_all add: n)
  then have "covers (inferredStateDensity this) (actualHiddenState this)"
    by (simp add: eq)
  ultimately show ?case by blast
next
  case (applied this u this')
  then obtain n where dim: "hasDimension this (2 ^ n)"
    and cov: "covers (inferredStateDensity this) (actualHiddenState this)"
    by blast
  from dim have h: "height (actualHiddenState this) = 2 ^ n"
    "width (inferredStateDensity this) = 2 ^ n" "height (inferredStateDensity this) = 2 ^ n"
    by (simp_all add: hasDimension_def)
  have ok: "width u = 2 ^ n" "height u = 2 ^ n" "isUnitary u (1 / 1000)"
    using applied(2) applyOperation_rejects [of u this] h(1) by auto
  from applied(2) have this': "this' =
      this\<lparr>operationCount := operationCount this + 1,
           actualHiddenState :=
             generate 1 (2 ^ n) (\<lambda>r c. \<Sum>k<2 ^ n. cell u r k * cell (actualHiddenState this) k c),
           inferredStateDensity :=
             generate (2 ^ n) (2 ^ n) (\<lambda>r c. \<Sum>k<2 ^ n.
               cell (generate (2 ^ n) (2 ^ n)
                 (\<lambda>r c. \<Sum>j<2 ^ n. cell u r j * cell (inferredStateDensity this) j c)) r k
               * cell (adjoint u) k c)\<rparr>"
    unfolding applyOperation_accepts [OF dim ok] by simp
  have "hasDimension this' (2 ^ n)"
    by (simp add: this' hasDimension_def)
  moreover have "covers (inferredStateDensity this') (actualHiddenState this')"
    unfolding this' using covers_applied [OF cov h(2,3,1) ok(1,2)] by simp
  ultimately show ?case by blast
next
  case (measured this k sample b this')
  then obtain n where dim: "hasDimension this (2 ^ n)"
    and cov: "covers (inferredStateDensity this) (actualHiddenState this)"
    by blast
  let ?\<psi> = "actualHiddenState this" and ?\<rho> = "inferredStateDensity this"
  from dim have wf: "wellFormed ?\<psi>" "width ?\<psi> = 1" "wellFormed ?\<rho>"
    by (simp_all add: hasDimension_def)
  have k: "k mod 32 < 32" by simp
  from measured(2) have res: "measureQubit (k mod 32) sample this = Inr (b, this')"
    using measureQubit_mod [of k sample this] by simp
  define s where "s = 1 / sqrt (columnMass ?\<psi> (k mod 32) b)"
  define t where "t = 1 / cmod (diagonalMass ?\<rho> (k mod 32) b)"
  from res have nz: "columnMass ?\<psi> (k mod 32) b \<noteq> 0" "diagonalMass ?\<rho> (k mod 32) b \<noteq> 0"
    and \<psi>': "actualHiddenState this'
        = timesScalar (zeroInconsistentAmplitudes ?\<psi> (k mod 32) b) s"
    and \<rho>': "inferredStateDensity this'
        = timesScalar (zeroInconsistentEntries ?\<rho> (k mod 32) b) t"
    by (auto simp: measureQubit_eq [OF dim k] Let_def s_def t_def split: if_splits)
  have "0 < columnMass ?\<psi> (k mod 32) b"
    using nz(1) columnMass_nonneg [of ?\<psi> "k mod 32" b] by linarith
  then have s: "0 < s" by (simp add: s_def)
  have t: "0 < t" using nz(2) by (simp add: t_def)
  have "hasDimension this' (2 ^ n)"
    using dim by (simp add: hasDimension_def \<psi>' \<rho>')
  moreover have "covers (inferredStateDensity this') (actualHiddenState this')"
    unfolding \<psi>' \<rho>' using cov wf(3,1,2) s t by (rule covers_collapsed)
  ultimately show ?case by blast
qed

lemma reachable_nonnegativeDiagonal:
  assumes "reachable this"
  shows "nonnegativeDiagonal (inferredStateDensity this)"
proof -
  from reachable_invariant [OF assms] obtain n where dim: "hasDimension this (2 ^ n)"
    and cov: "covers (inferredStateDensity this) (actualHiddenState this)" by blast
  from dim have h: "width (inferredStateDensity this) = 2 ^ n"
    "height (inferredStateDensity this) = 2 ^ n" "height (actualHiddenState this) = 2 ^ n"
    by (simp_all add: hasDimension_def)
  show ?thesis using cov h by (rule covers_nonnegativeDiagonal)
qed

lemma reachable_measureQubit_returns:
  assumes "reachable this" "k < 32"
    and "columnMass (actualHiddenState this) k
           (sample < columnMass (actualHiddenState this) k True) \<noteq> 0"
  shows "\<exists>this'. measureQubit k sample this
           = Inr (sample < columnMass (actualHiddenState this) k True, this')"
proof -
  from reachable_invariant [OF assms(1)] obtain n where dim: "hasDimension this (2 ^ n)"
    and cov: "covers (inferredStateDensity this) (actualHiddenState this)" by blast
  from dim have h: "width (inferredStateDensity this) = 2 ^ n"
    "height (inferredStateDensity this) = 2 ^ n" "height (actualHiddenState this) = 2 ^ n"
    by (simp_all add: hasDimension_def)
  have "diagonalMass (inferredStateDensity this) k
          (sample < columnMass (actualHiddenState this) k True) \<noteq> 0"
    using cov h assms(3) by (rule covers_mass)
  with assms(3) show ?thesis
    by (simp add: measureQubit_eq [OF dim assms(2)] Let_def)
qed

lemma sampled_outcome_has_mass:
  assumes "width col = 1" "squaredNorm col = 1" "0 \<le> sample" "sample < 1"
  shows "columnMass col k (sample < columnMass col k True) \<noteq> 0"
proof -
  have total: "columnMass col k True + columnMass col k False = 1"
    using columnMass_split [OF assms(1), of k] assms(2) by simp
  show ?thesis
  proof (cases "sample < columnMass col k True")
    case True
    with assms(3) show ?thesis by auto
  next
    case False
    with assms(4) total show ?thesis by auto
  qed
qed

text \<open>
  Claim C7, as amended. For every simulator that the program can build and every qubit
  index \<open>k\<close>: when the first \<open>measureQubit(k)\<close> has returned an outcome with a finite collapsed
  state, a second \<open>measureQubit(k)\<close> with no operation in between, for any sample of the
  random source (in \<open>[0, 1)\<close>), returns the same outcome, adds exactly 0 to the misprediction
  score and leaves both the true state and the inferred density matrix as the first call
  left them: only the operation count changes. The first call does so whenever the true
  state has norm 1 and its sample is in \<open>[0, 1)\<close>; its collapse divides by zero, and leaves
  no finite state, exactly when the outcome it samples has zero mass in the true state
  (bit \<open>k mod 32\<close> of the basis index, as the 32-bit mask selects it).
\<close>

theorem measureQubit_twice_repeats_outcome:
  assumes "reachable this" and "0 \<le> sample2" and "sample2 < 1"
  shows "(\<forall>b this1. measureQubit k sample1 this = Inr (b, this1) \<longrightarrow>
            measureQubit k sample2 this1
              = Inr (b, this1\<lparr>operationCount := operationCount this1 + 1\<rparr>))
       \<and> (absCol (actualHiddenState this) = Inr 1 \<and> 0 \<le> sample1 \<and> sample1 < 1 \<longrightarrow>
            (\<exists>b this1. measureQubit k sample1 this = Inr (b, this1)))
       \<and> (if columnMass (actualHiddenState this) (k mod 32)
               (sample1 < columnMass (actualHiddenState this) (k mod 32) True) = 0
           then measureQubit k sample1 this = Inl NonFinite
           else \<exists>this1. measureQubit k sample1 this
                  = Inr (sample1 < columnMass (actualHiddenState this) (k mod 32) True, this1))"
proof -
  from reachable_invariant [OF assms(1)] obtain n where dim: "hasDimension this (2 ^ n)"
    by blast
  have k: "k mod 32 < 32" by simp
  have again: "measureQubit k sample2 this1
              = Inr (b, this1\<lparr>operationCount := operationCount this1 + 1\<rparr>)"
    if "measureQubit k sample1 this = Inr (b, this1)" for b this1
  proof -
    from that have "measureQubit (k mod 32) sample1 this = Inr (b, this1)"
      using measureQubit_mod [of k sample1 this] by simp
    then have "measureQubit (k mod 32) sample2 this1
        = Inr (b, this1\<lparr>operationCount := operationCount this1 + 1\<rparr>)"
      by (rule measureQubit_repeated [OF dim k assms(2,3)
            reachable_nonnegativeDiagonal [OF assms(1)]])
    then show ?thesis using measureQubit_mod [of k sample2 this1] by simp
  qed
  have first: "\<exists>b this1. measureQubit k sample1 this = Inr (b, this1)"
    if "absCol (actualHiddenState this) = Inr 1 \<and> 0 \<le> sample1 \<and> sample1 < 1"
  proof -
    from that have n1: "squaredNorm (actualHiddenState this) = 1" by (simp add: absCol_eq)
    have w: "width (actualHiddenState this) = 1" using dim by (simp add: hasDimension_def)
    have "columnMass (actualHiddenState this) (k mod 32)
           (sample1 < columnMass (actualHiddenState this) (k mod 32) True) \<noteq> 0"
      using w n1 that by (intro sampled_outcome_has_mass) simp_all
    then have "\<exists>this1. measureQubit (k mod 32) sample1 this
        = Inr (sample1 < columnMass (actualHiddenState this) (k mod 32) True, this1)"
      by (rule reachable_measureQubit_returns [OF assms(1) k])
    then show ?thesis using measureQubit_mod [of k sample1 this] by auto
  qed
  have divides: "measureQubit k sample1 this = Inl NonFinite"
    if "columnMass (actualHiddenState this) (k mod 32)
        (sample1 < columnMass (actualHiddenState this) (k mod 32) True) = 0"
  proof -
    from that have "measureQubit (k mod 32) sample1 this = Inl NonFinite"
      by (simp add: measureQubit_eq [OF dim k] Let_def)
    then show ?thesis using measureQubit_mod [of k sample1 this] by simp
  qed
  have returns: "\<exists>this1. measureQubit k sample1 this
      = Inr (sample1 < columnMass (actualHiddenState this) (k mod 32) True, this1)"
    if "columnMass (actualHiddenState this) (k mod 32)
        (sample1 < columnMass (actualHiddenState this) (k mod 32) True) \<noteq> 0"
  proof -
    from that have "\<exists>this1. measureQubit (k mod 32) sample1 this
        = Inr (sample1 < columnMass (actualHiddenState this) (k mod 32) True, this1)"
      by (rule reachable_measureQubit_returns [OF assms(1) k])
    then show ?thesis using measureQubit_mod [of k sample1 this] by simp
  qed
  have last: "if columnMass (actualHiddenState this) (k mod 32)
               (sample1 < columnMass (actualHiddenState this) (k mod 32) True) = 0
           then measureQubit k sample1 this = Inl NonFinite
           else \<exists>this1. measureQubit k sample1 this
                  = Inr (sample1 < columnMass (actualHiddenState this) (k mod 32) True, this1)"
    using divides returns by simp
  show ?thesis using again first last by blast
qed

lemma reachable_freshQubit: "reachable freshQubit"
  by (rule reachable.constructed [of ketZero]) (simp_all add: newEveQuantumComputer_ketZero)

theorem measureQubit_twice_repeats_outcome_witness:
  "reachable freshQubit \<and> (0::real) \<le> 3 / 4 \<and> (3 / 4 :: real) < 1
   \<and> absCol (actualHiddenState freshQubit) = Inr 1 \<and> (0::real) \<le> 1 / 2 \<and> (1 / 2 :: real) < 1
   \<and> measureQubit 0 (1 / 2) freshQubit = Inr (False, measuredQubit)
   \<and> measureQubit 0 (3 / 4) measuredQubit
       = Inr (False, measuredQubit\<lparr>operationCount := operationCount measuredQubit + 1\<rparr>)
   \<and> expectedIgnoranceErrors
        (measuredQubit\<lparr>operationCount := operationCount measuredQubit + 1\<rparr>)
       = expectedIgnoranceErrors measuredQubit"
proof -
  have s: "(0::real) \<le> 3 / 4" "(3 / 4 :: real) < 1" by simp_all
  have "measureQubit 0 (3 / 4) measuredQubit
       = Inr (False, measuredQubit\<lparr>operationCount := operationCount measuredQubit + 1\<rparr>)"
    using measureQubit_twice_repeats_outcome [OF reachable_freshQubit s, of 0 "1 / 2",
        THEN conjunct1, rule_format, OF measureQubit_freshQubit] .
  then show ?thesis
    using reachable_freshQubit measureQubit_freshQubit by (simp add: absCol_ketZero)
qed

subsection \<open>An operator within the tolerance that is not unitary\<close>

lemma shrinkX_simps [simp]:
  "width shrinkX = 2" "height shrinkX = 2" "wellFormed shrinkX"
  "cell shrinkX 0 0 = 0" "cell shrinkX 0 (Suc 0) = 9997 / 10000"
  "cell shrinkX (Suc 0) 0 = 9997 / 10000" "cell shrinkX (Suc 0) (Suc 0) = 0"
  by (simp_all add: shrinkX_def wellFormed_def cell_def)

lemma shrunkQubit_simps [simp]:
  "width (actualHiddenState shrunkQubit) = 1" "height (actualHiddenState shrunkQubit) = 2"
  "wellFormed (actualHiddenState shrunkQubit)"
  "cell (actualHiddenState shrunkQubit) 0 0 = 0"
  "cell (actualHiddenState shrunkQubit) (Suc 0) 0 = 9997 / 10000"
  "width (inferredStateDensity shrunkQubit) = 2" "height (inferredStateDensity shrunkQubit) = 2"
  "wellFormed (inferredStateDensity shrunkQubit)"
  "cell (inferredStateDensity shrunkQubit) 0 0 = 99940009 / 200000000"
  "cell (inferredStateDensity shrunkQubit) 0 (Suc 0) = 0"
  "cell (inferredStateDensity shrunkQubit) (Suc 0) 0 = 0"
  "cell (inferredStateDensity shrunkQubit) (Suc 0) (Suc 0) = 99940009 / 200000000"
  "operationCount shrunkQubit = 1" "expectedIgnoranceErrors shrunkQubit = 0"
  by (simp_all add: shrunkQubit_def wellFormed_def cell_def)

lemma hasDimension_shrunkQubit: "hasDimension shrunkQubit 2"
  by (simp add: hasDimension_def)

lemma isUnitary_shrinkX: "isUnitary shrinkX (1 / 1000)"
proof -
  let ?p = "generate 2 2 (\<lambda>r c. \<Sum>k<2. cell shrinkX r k * cell (adjoint shrinkX) k c)"
  have "(\<Sum>r<2. \<Sum>c<2. (cmod (cell ?p r c - cell (identity 2) r c))\<^sup>2)
      = 2 * (59991 / 100000000)\<^sup>2"
    by (simp add: sum_lessThan_two norm_divide power2_eq_square)
  also have "\<dots> \<le> (1 / 1000)\<^sup>2" by (simp add: power2_eq_square)
  finally have "distanceTo ?p (identity 2) \<le> 1 / 1000"
    unfolding distanceTo_def by (intro real_le_lsqrt) simp_all
  then show ?thesis
    by (simp add: isUnitary_def timesMatrix_eq isApproximatelyEqualTo_def)
qed

lemma not_exactlyUnitary_shrinkX: "\<not> exactlyUnitary shrinkX 2"
proof
  assume "exactlyUnitary shrinkX 2"
  from exactlyUnitary_columns [OF this, of 0 0]
  show False by (simp add: sum_lessThan_two)
qed

lemma applyOperation_shrinkX: "applyOperation shrinkX freshQubit = (Inr (), shrunkQubit)"
proof -
  have a: "generate 1 2 (\<lambda>r c. \<Sum>k<2. cell shrinkX r k * cell ketZero k c)
      = actualHiddenState shrunkQubit"
    by (rule Matrix_eqI) (auto dest!: less_two_cases simp: sum_lessThan_two)
  have d: "generate 2 2 (\<lambda>r c. \<Sum>k<2.
               cell (generate 2 2
                 (\<lambda>r c. \<Sum>j<2. cell shrinkX r j * cell (inferredStateDensity freshQubit) j c)) r k
               * cell (adjoint shrinkX) k c)
      = inferredStateDensity shrunkQubit"
    by (rule Matrix_eqI) (auto dest!: less_two_cases simp: sum_lessThan_two)
  have "applyOperation shrinkX freshQubit =
     (Inr (),
      \<lparr>actualHiddenState = actualHiddenState shrunkQubit,
       inferredStateDensity = inferredStateDensity shrunkQubit,
       operationCount = 1, expectedIgnoranceErrors = 0\<rparr>)"
    unfolding applyOperation_accepts [OF hasDimension_freshQubit _ _ isUnitary_shrinkX,
        simplified]
    using a d by (simp add: freshQubit_def)
  then show ?thesis by (simp add: shrunkQubit_def)
qed

lemma reachable_shrunkQubit: "reachable shrunkQubit"
  using reachable_freshQubit applyOperation_shrinkX by (rule reachable.applied)

lemma sqrt_shrunk [simp]: "sqrt (99940009 / 100000000) = 9997 / 10000"
  by (rule real_sqrt_unique) (simp_all add: power2_eq_square)

lemma absCol_shrunkQubit: "absCol (actualHiddenState shrunkQubit) = Inr (9997 / 10000)"
  by (simp add: absCol_eq squaredNorm_column sum_lessThan_two norm_divide power2_eq_square)

lemma trace_shrunkQubit: "trace (inferredStateDensity shrunkQubit) = Inr (99940009 / 100000000)"
  by (simp add: trace_eq sum_lessThan_two)

lemma columnMass_shrunkQubit [simp]:
  "columnMass (actualHiddenState shrunkQubit) 0 True = 99940009 / 100000000"
  "columnMass (actualHiddenState shrunkQubit) 0 False = 0"
  "columnMass (actualHiddenState shrunkQubit) (Suc 0) True = 0"
  "columnMass (actualHiddenState shrunkQubit) (Suc 0) False = 99940009 / 100000000"
  by (simp_all add: columnMass_sum sum_lessThan_two norm_divide power2_eq_square bit_iff_odd)

lemma diagonalMass_shrunkQubit [simp]:
  "diagonalMass (inferredStateDensity shrunkQubit) (Suc 0) True = 0"
  "diagonalMass (inferredStateDensity shrunkQubit) (Suc 0) False = 99940009 / 100000000"
  by (simp_all add: diagonalMass_sum sum_lessThan_two bit_iff_odd)

subsection \<open>The claims that assume an exactly unitary evolution, on the code\<close>

lemma rescaledQubit_simps [simp]:
  "width (actualHiddenState rescaledQubit) = 1" "height (actualHiddenState rescaledQubit) = 2"
  "wellFormed (actualHiddenState rescaledQubit)"
  "cell (actualHiddenState rescaledQubit) 0 0 = 0"
  "cell (actualHiddenState rescaledQubit) (Suc 0) 0 = 1"
  "width (inferredStateDensity rescaledQubit) = 2"
  "height (inferredStateDensity rescaledQubit) = 2"
  "wellFormed (inferredStateDensity rescaledQubit)"
  "cell (inferredStateDensity rescaledQubit) 0 0 = 1 / 2"
  "cell (inferredStateDensity rescaledQubit) 0 (Suc 0) = 0"
  "cell (inferredStateDensity rescaledQubit) (Suc 0) 0 = 0"
  "cell (inferredStateDensity rescaledQubit) (Suc 0) (Suc 0) = 1 / 2"
  by (simp_all add: rescaledQubit_def wellFormed_def cell_def)

lemma applyOperation_pauliX_shrunkQubit:
  "fst (applyOperation pauliX shrunkQubit) = Inr ()"
  "absCol (actualHiddenState (snd (applyOperation pauliX shrunkQubit))) = Inr (9997 / 10000)"
proof -
  have unitary: "isUnitary pauliX (1 / 1000)"
    using exactlyUnitary_pauliX by (rule exactlyUnitary_isUnitary) simp
  note eq = applyOperation_accepts [OF hasDimension_shrunkQubit _ _ unitary, simplified]
  show "fst (applyOperation pauliX shrunkQubit) = Inr ()"
    by (simp add: eq)
  show "absCol (actualHiddenState (snd (applyOperation pauliX shrunkQubit)))
      = Inr (9997 / 10000)"
    by (simp add: eq absCol_eq squaredNorm_column sum_lessThan_two norm_divide
        power2_eq_square)
qed

lemma measureQubit_shrunkQubit_beyond:
  "measureQubit 1 (1 / 2) shrunkQubit = Inr (False, rescaledQubit)"
proof -
  have a: "timesScalar (zeroInconsistentAmplitudes (actualHiddenState shrunkQubit) (Suc 0) False)
        (10000 / 9997) = actualHiddenState rescaledQubit"
    by (rule Matrix_eqI) (auto dest!: less_two_cases simp: cell_timesScalar bit_iff_odd)
  have d: "timesScalar (zeroInconsistentEntries (inferredStateDensity shrunkQubit) (Suc 0) False)
        (100000000 / 99940009) = inferredStateDensity rescaledQubit"
    by (rule Matrix_eqI) (auto dest!: less_two_cases simp: cell_timesScalar bit_iff_odd)
  have k: "Suc 0 < 32" by simp
  have "measureQubit (Suc 0) (1 / 2) shrunkQubit
      = Inr (False,
          \<lparr>actualHiddenState = actualHiddenState rescaledQubit,
           inferredStateDensity = inferredStateDensity rescaledQubit,
           operationCount = 2, expectedIgnoranceErrors = 0\<rparr>)"
    using a d by (simp add: measureQubit_eq [OF hasDimension_shrunkQubit k] Let_def norm_divide)
  then show ?thesis by (simp add: rescaledQubit_def)
qed

text \<open>
  Claim C4 as stated fails on the code. The operator \<open>0.9997 * X\<close> passes the check of
  \<open>applyOperation\<close>, which tests unitarity at the tolerance 0.001 only, and the call succeeds
  on the freshly constructed one-qubit simulator, whose true state has norm 1 and whose
  density matrix has trace 1. Afterwards the norm is 0.9997 and the trace 0.99940009:
  \<open>applyOperation\<close> does not renormalise. A further \<open>applyOperation(X)\<close>, with an exactly
  unitary operator, succeeds on that reachable simulator and leaves the norm at 0.9997.
\<close>

theorem applyOperation_within_tolerance_rescales_counterexample:
  "newEveQuantumComputer ketZero = Inr freshQubit
   \<and> absCol (actualHiddenState freshQubit) = Inr 1
   \<and> trace (inferredStateDensity freshQubit) = Inr 1
   \<and> isUnitary shrinkX (1 / 1000)
   \<and> applyOperation shrinkX freshQubit = (Inr (), shrunkQubit)
   \<and> absCol (actualHiddenState shrunkQubit) = Inr (9997 / 10000)
   \<and> trace (inferredStateDensity shrunkQubit) = Inr (99940009 / 100000000)
   \<and> absCol (actualHiddenState shrunkQubit) \<noteq> Inr 1
   \<and> trace (inferredStateDensity shrunkQubit) \<noteq> Inr 1
   \<and> fst (applyOperation pauliX shrunkQubit) = Inr ()
   \<and> absCol (actualHiddenState (snd (applyOperation pauliX shrunkQubit))) \<noteq> Inr 1"
  by (simp add: newEveQuantumComputer_ketZero absCol_ketZero trace_freshQubit
      isUnitary_shrinkX applyOperation_shrinkX absCol_shrunkQubit trace_shrunkQubit
      applyOperation_pauliX_shrunkQubit)

text \<open>
  Claim C10 as stated fails on the code. On the one-qubit simulator (\<open>n = 1\<close>) that the
  accepted operator \<open>0.9997 * X\<close> leaves behind, \<open>measureQubit(1)\<close> returns \<open>false\<close> and adds 0 to
  the score, but it does not leave the two representations unchanged: the
  renormalisations divide by the norm 0.9997 and by the trace 0.99940009, so the true
  state \<open>[0, 0.9997]\<close> becomes \<open>[0, 1]\<close> and the diagonal of the density matrix becomes
  \<open>1/2, 1/2\<close>.
\<close>

theorem measureQubit_beyond_register_rescales_counterexample:
  "applyOperation shrinkX freshQubit = (Inr (), shrunkQubit)
   \<and> hasDimension shrunkQubit (2 ^ 1)
   \<and> measureQubit 1 (1 / 2) shrunkQubit = Inr (False, rescaledQubit)
   \<and> actualHiddenState rescaledQubit \<noteq> actualHiddenState shrunkQubit
   \<and> inferredStateDensity rescaledQubit \<noteq> inferredStateDensity shrunkQubit
   \<and> measureQubit 1 (1 / 2) shrunkQubit
       \<noteq> Inr (False, shrunkQubit\<lparr>operationCount := operationCount shrunkQubit + 1\<rparr>)"
proof -
  have h: "hasDimension shrunkQubit (2 ^ 1)" using hasDimension_shrunkQubit by simp
  have a: "actualHiddenState rescaledQubit \<noteq> actualHiddenState shrunkQubit"
    by (simp add: rescaledQubit_def shrunkQubit_def)
  have d: "inferredStateDensity rescaledQubit \<noteq> inferredStateDensity shrunkQubit"
    by (simp add: rescaledQubit_def shrunkQubit_def)
  note m = measureQubit_shrunkQubit_beyond
  have "rescaledQubit \<noteq> shrunkQubit\<lparr>operationCount := operationCount shrunkQubit + 1\<rparr>"
    by (simp add: rescaledQubit_def shrunkQubit_def)
  then have ne: "measureQubit 1 (1 / 2) shrunkQubit
       \<noteq> Inr (False, shrunkQubit\<lparr>operationCount := operationCount shrunkQubit + 1\<rparr>)"
    unfolding m by simp
  show ?thesis
    using applyOperation_shrinkX h m a d ne by blast
qed


text \<open>
  Claim C7 as stated fails on the code. The simulator that the accepted operator
  \<open>0.9997 * X\<close> leaves behind is one the program builds. Its first \<open>measureQubit(0)\<close> with the
  sample 0.9995 takes the outcome \<open>false\<close> (0.9995 is not below the on-probability
  0.99940009), which has zero mass in the true state, and the collapse divides by zero:
  the state it leaves is not finite, it is not collapsed onto the outcome, and a second
  call has no finite amount to add to the score.
\<close>

theorem measureQubit_first_collapse_not_finite_counterexample:
  "reachable shrunkQubit
   \<and> (0::real) \<le> 9995 / 10000 \<and> (9995 / 10000 :: real) < 1
   \<and> (9995 / 10000 < columnMass (actualHiddenState shrunkQubit) 0 True) = False
   \<and> measureQubit 0 (9995 / 10000) shrunkQubit = Inl NonFinite"
proof -
  have k: "(0::nat) < 32" by simp
  have "measureQubit 0 (9995 / 10000) shrunkQubit = Inl NonFinite"
    by (simp add: measureQubit_eq [OF hasDimension_shrunkQubit k] Let_def)
  then show ?thesis using reachable_shrunkQubit by simp
qed

end
